theory Spec2Isabelle
  imports Main
begin

section \<open>The lifecycle engine: data model\<close>

text \<open>
  The development embeds the class \<open>LifecycleEngine\<close> (the orchestration core) and the
  types of \<open>types/lifecycle.ts\<close> it uses. The engine object is a record that every
  method takes and returns. Everything outside the engine (the modules, the listeners,
  the observers, the console and the timers) is opaque code: the model records every
  call the engine makes to it in the field \<open>trace\<close>, in order, and takes what the call
  answers from the callee's description (a module says how its n-th \<open>execute\<close> ends, a
  listener or an observer method says how it returns).

  Not modelled: the wall clock (\<open>Date.now()\<close>, hence the timestamps, the durations and
  the duration statistics, which are floating-point averages), the human-readable
  \<open>name\<close>, \<open>description\<close> and \<open>source\<close> texts of an event, the key/value data of the
  context, and anything a callee does to the engine or to the context behind the
  engine's back while it runs.
\<close>

datatype LifecyclePhase =
  INITIALIZATION | PREPARATION | VALIDATION | EXECUTION | MONITORING | CLEANUP

datatype EventLevel = DEBUG | INFO | WARN | ERROR | CRITICAL

datatype ExecutionResult = SUCCESS | FAILURE | PARTIAL_SUCCESS | SKIPPED

datatype LifecycleState =
  UNINITIALIZED | PREPARING | RUNNING | PAUSED | STOPPED | STATE_ERROR

text \<open>
  Every error of the engine is a JavaScript \<open>Error\<close> with a message; there is one
  constructor for each place that creates one. \<open>InvalidModule\<close> is thrown by
  \<open>registerModule\<close>, \<open>AlreadyInitialized\<close> by \<open>initialize\<close>, \<open>InvalidStartState\<close> by
  \<open>start\<close>, \<open>ModuleTimeout n\<close> is the rejection of the timer that races the module
  named \<open>n\<close>, and \<open>Thrown msg\<close> is an error that comes out of a callee.
\<close>

datatype error =
    InvalidModule
  | AlreadyInitialized
  | InvalidStartState
  | ModuleTimeout string
  | Thrown string

text \<open>The \<open>data\<close> objects that the engine attaches to its events.\<close>

datatype payload =
    ModuleInfo string string
  | RetryInfo error nat int
  | FailedInfo error nat
  | ErrorInfo error

record LifecycleEvent =
  ev_id :: nat
  ev_phase :: LifecyclePhase
  ev_type :: string
  ev_level :: EventLevel
  ev_data :: "payload option"

text \<open>The argument of \<open>logEvent\<close> is a \<open>Partial<LifecycleEvent>\<close>: every field may be absent.\<close>

record PartialEvent =
  pe_phase :: "LifecyclePhase option"
  pe_type :: "string option"
  pe_level :: "EventLevel option"
  pe_data :: "payload option"

text \<open>
  How a call to a listener or to an observer method ends: it returns nothing, it throws,
  or it returns a promise, which later resolves (\<open>None\<close>) or rejects with a message.
\<close>

datatype callback_result = Returns | Throws string | ReturnsPromise "string option"

text \<open>
  A listener is a function object; \<open>lid\<close> is its identity (the \<open>Set\<close> of listeners
  compares references). An observer is an object whose optional methods are looked up
  by name.
\<close>

record LifecycleListener =
  lid :: nat
  on_event :: "LifecycleEvent \<Rightarrow> callback_result"

record LifecycleObserver =
  oid :: nat
  methods :: "string \<rightharpoonup> callback_result"

text \<open>
  How one call of \<open>module.execute(context)\<close> ends when it is raced against the timer of
  \<open>phaseTimeout\<close> milliseconds: the promise resolves in time, rejects in time, or is
  still pending when the timer fires. The interface declares \<open>execute\<close> as returning a
  promise, so a failure of the module is a rejection of that promise and the timer is
  armed after every call.
\<close>

datatype outcome = Resolves | Rejects string | Hangs

record LifecycleModule =
  name :: string
  version :: string
  phase :: LifecyclePhase
  isInitialized :: bool
  initialize_is_function :: bool
  mref :: nat
  execute :: "nat \<Rightarrow> outcome"

text \<open>
  \<open>mref\<close> is the identity of the module object, \<open>execute m n\<close> is how the call number
  \<open>n\<close> (counted from 0) of its \<open>execute\<close> ends, and \<open>initialize_is_function\<close> is the
  test \<open>typeof module.initialize === 'function'\<close> of \<open>registerModule\<close>.
\<close>

record LifecycleContext =
  ctx_currentPhase :: LifecyclePhase
  ctx_previousPhase :: "LifecyclePhase option"
  ctx_events :: "LifecycleEvent list"
  ctx_errors :: "error list"

record LifecycleConfig =
  enableParallel :: bool
  phaseTimeout :: int
  enableDebugLogging :: bool
  continueOnError :: bool
  maxRetries :: int
  retryDelay :: int
  saveHistory :: bool
  maxHistorySize :: int

record PhaseStatistics =
  phaseName :: LifecyclePhase
  executionCount :: nat
  successCount :: nat
  failureCount :: nat

record LifecycleStats =
  totalExecutions :: nat
  successfulExecutions :: nat
  failedExecutions :: nat
  phaseStats :: "LifecyclePhase \<Rightarrow> PhaseStatistics"

text \<open>The calls that the engine makes to the code around it.\<close>

datatype action =
    ListenerCall nat LifecycleEvent
  | ConsoleLog LifecycleEvent
  | ObserverCall nat string
  | ObserverErrorCall nat error LifecyclePhase
  | InitializeCall nat
  | ExecuteCall nat LifecyclePhase "LifecyclePhase option"
  | CleanupCall nat
  | TimeoutArmed int
  | Delay int
  | AwaitAll "nat list"

text \<open>
  \<open>ListenerCall l e\<close> is \<open>listener(event)\<close>; \<open>ConsoleLog e\<close> is the line written by
  \<open>outputLog\<close>; \<open>ObserverCall o m\<close> is the call of the method named \<open>m\<close> of the observer
  \<open>o\<close> and \<open>ObserverErrorCall o e p\<close> that of \<open>onError(e, p)\<close>; \<open>InitializeCall\<close>,
  \<open>ExecuteCall\<close> and \<open>CleanupCall\<close> are the three operations of a module, \<open>ExecuteCall\<close>
  with the \<open>currentPhase\<close> and \<open>previousPhase\<close> of the context it is given;
  \<open>TimeoutArmed t\<close> is the timer that a module is raced against; \<open>Delay t\<close> is the awaited
  \<open>setTimeout\<close> of a retry; \<open>AwaitAll is\<close> is an \<open>await\<close> of the promises returned by the
  callees \<open>is\<close>.
\<close>

record LifecycleEngine =
  state :: LifecycleState
  currentPhase :: "LifecyclePhase option"
  modules :: "LifecyclePhase \<rightharpoonup> LifecycleModule list"
  listeners :: "LifecycleListener list"
  observers :: "LifecycleObserver list"
  eventHistory :: "LifecycleEvent list"
  stats :: LifecycleStats
  config :: LifecycleConfig
  ctx :: "LifecycleContext option"
  eventCounter :: nat
  executions :: "nat \<Rightarrow> nat"
  trace :: "action list"

text \<open>
  \<open>ctx\<close> is the field \<open>context\<close>. The last two fields are the world around the engine:
  \<open>executions s r\<close> counts the calls of \<open>execute\<close> made so far on the module object \<open>r\<close>.
\<close>

text \<open>
  A promise returned by one of the engine's \<open>async\<close> notification methods. These run
  synchronously up to their only \<open>await\<close>, that of \<open>Promise.all(promises)\<close>: a callee
  that throws before it makes the promise \<open>Rejected\<close>; otherwise the promise is
  \<open>Pending\<close> on the promises collected from the callees (with no promise collected it
  is resolved).
\<close>

datatype promise = Rejected error | Pending "(nat \<times> string option) list"

section \<open>Events\<close>

definition createContext :: "LifecycleEngine \<Rightarrow> LifecycleContext" where
  "createContext s =
     \<lparr>ctx_currentPhase = (case currentPhase s of Some p \<Rightarrow> p | None \<Rightarrow> INITIALIZATION),
      ctx_previousPhase = None,
      ctx_events = [],
      ctx_errors = []\<rparr>"

definition getContext :: "LifecycleEngine \<Rightarrow> LifecycleContext \<times> LifecycleEngine" where
  "getContext s =
     (case ctx s of
        Some c \<Rightarrow> (c, s)
      | None \<Rightarrow> (createContext s, s\<lparr>ctx := Some (createContext s)\<rparr>))"

fun notifyListeners_loop ::
  "LifecycleListener list \<Rightarrow> LifecycleEvent \<Rightarrow> (nat \<times> string option) list \<Rightarrow>
   LifecycleEngine \<Rightarrow> promise \<times> LifecycleEngine" where
  "notifyListeners_loop [] event promises s = (Pending promises, s)"
| "notifyListeners_loop (l # ls) event promises s =
     (let s' = s\<lparr>trace := trace s @ [ListenerCall (lid l) event]\<rparr>
      in case on_event l event of
           Returns \<Rightarrow> notifyListeners_loop ls event promises s'
         | ReturnsPromise r \<Rightarrow> notifyListeners_loop ls event (promises @ [(lid l, r)]) s'
         | Throws msg \<Rightarrow> (Rejected (Thrown msg), s'))"

definition notifyListeners :: "LifecycleEvent \<Rightarrow> LifecycleEngine \<Rightarrow> promise \<times> LifecycleEngine" where
  "notifyListeners event s = notifyListeners_loop (listeners s) event [] s"

definition outputLog :: "LifecycleEvent \<Rightarrow> LifecycleEngine \<Rightarrow> LifecycleEngine" where
  "outputLog event s =
     (if enableDebugLogging (config s) \<or> ev_level event \<noteq> DEBUG
      then s\<lparr>trace := trace s @ [ConsoleLog event]\<rparr>
      else s)"

text \<open>
  \<open>fullEvent\<close> is the object that \<open>logEvent\<close> builds, given the counter after its
  increment. An absent field and an empty string are both falsy for \<open>||\<close>.
\<close>

definition fullEvent :: "PartialEvent \<Rightarrow> nat \<Rightarrow> LifecyclePhase option \<Rightarrow> LifecycleEvent" where
  "fullEvent event n cur =
     \<lparr>ev_id = n,
      ev_phase = (case pe_phase event of
                    Some p \<Rightarrow> p
                  | None \<Rightarrow> (case cur of Some p \<Rightarrow> p | None \<Rightarrow> INITIALIZATION)),
      ev_type = (case pe_type event of
                   Some t \<Rightarrow> (if t = [] then ''unknown'' else t)
                 | None \<Rightarrow> ''unknown''),
      ev_level = (case pe_level event of Some l \<Rightarrow> l | None \<Rightarrow> INFO),
      ev_data = pe_data event\<rparr>"

text \<open>
  \<open>logEvent\<close> is not \<open>async\<close>: it calls \<open>notifyListeners\<close> and goes on with the promise
  unused.
\<close>

definition logEvent :: "PartialEvent \<Rightarrow> LifecycleEngine \<Rightarrow> LifecycleEngine" where
  "logEvent event s =
     (let s1 = s\<lparr>eventCounter := eventCounter s + 1\<rparr>;
          e = fullEvent event (eventCounter s1) (currentPhase s1);
          s2 = (if saveHistory (config s1)
                then (let h = eventHistory s1 @ [e]
                      in s1\<lparr>eventHistory :=
                              (if int (length h) > maxHistorySize (config s1) then tl h else h)\<rparr>)
                else s1);
          s3 = (case ctx s2 of
                  Some c \<Rightarrow> s2\<lparr>ctx := Some (c\<lparr>ctx_events := ctx_events c @ [e]\<rparr>)\<rparr>
                | None \<Rightarrow> s2);
          s4 = snd (notifyListeners e s3)
      in outputLog e s4)"

section \<open>Registration of modules, listeners and observers\<close>

text \<open>
  The constructor spreads the caller's options over the defaults; the model takes the
  merged configuration, which a caller writes as an update of \<open>default_config\<close>.
\<close>

definition default_config :: LifecycleConfig where
  "default_config =
     \<lparr>enableParallel = False, phaseTimeout = 30000, enableDebugLogging = False,
      continueOnError = False, maxRetries = 3, retryDelay = 1000,
      saveHistory = True, maxHistorySize = 1000\<rparr>"

definition initializePhaseStats :: "LifecyclePhase \<Rightarrow> PhaseStatistics" where
  "initializePhaseStats p =
     \<lparr>phaseName = p, executionCount = 0, successCount = 0, failureCount = 0\<rparr>"

definition new_LifecycleEngine :: "LifecycleConfig \<Rightarrow> LifecycleEngine" where
  "new_LifecycleEngine cfg =
     logEvent
       \<lparr>pe_phase = Some INITIALIZATION, pe_type = Some ''engine_created'',
        pe_level = Some INFO, pe_data = None\<rparr>
       \<lparr>state = UNINITIALIZED, currentPhase = None, modules = Map.empty, listeners = [],
        observers = [], eventHistory = [],
        stats = \<lparr>totalExecutions = 0, successfulExecutions = 0, failedExecutions = 0,
                 phaseStats = initializePhaseStats\<rparr>,
        config = cfg, ctx = None, eventCounter = 0,
        executions = (\<lambda>r. 0), trace = []\<rparr>"

text \<open>The phase that the engine passes as \<open>this.currentPhase || INITIALIZATION\<close>.\<close>

definition currentPhase_or_default :: "LifecycleEngine \<Rightarrow> LifecyclePhase" where
  "currentPhase_or_default s = (case currentPhase s of Some p \<Rightarrow> p | None \<Rightarrow> INITIALIZATION)"

definition registerModule ::
  "LifecyclePhase \<Rightarrow> LifecycleModule \<Rightarrow> LifecycleEngine \<Rightarrow> (error + unit) \<times> LifecycleEngine" where
  "registerModule p m s =
     (if \<not> initialize_is_function m then (Inl InvalidModule, s)
      else
        let s1 = (if modules s p = None then s\<lparr>modules := (modules s)(p \<mapsto> [])\<rparr> else s);
            s2 = (case modules s1 p of
                    Some ms \<Rightarrow> s1\<lparr>modules := (modules s1)(p \<mapsto> ms @ [m])\<rparr>
                  | None \<Rightarrow> s1)
        in (Inr (),
            logEvent
              \<lparr>pe_phase = Some p, pe_type = Some ''module_registered'', pe_level = Some INFO,
               pe_data = Some (ModuleInfo (name m) (version m))\<rparr> s2))"

definition addEventListener :: "LifecycleListener \<Rightarrow> LifecycleEngine \<Rightarrow> LifecycleEngine" where
  "addEventListener l s =
     logEvent
       \<lparr>pe_phase = Some (currentPhase_or_default s), pe_type = Some ''listener_added'',
        pe_level = Some DEBUG, pe_data = None\<rparr>
       (s\<lparr>listeners := (if lid l \<in> lid ` set (listeners s) then listeners s
                          else listeners s @ [l])\<rparr>)"

definition removeEventListener :: "LifecycleListener \<Rightarrow> LifecycleEngine \<Rightarrow> bool \<times> LifecycleEngine" where
  "removeEventListener l s =
     (lid l \<in> lid ` set (listeners s),
      s\<lparr>listeners := filter (\<lambda>x. lid x \<noteq> lid l) (listeners s)\<rparr>)"

definition addObserver :: "LifecycleObserver \<Rightarrow> LifecycleEngine \<Rightarrow> LifecycleEngine" where
  "addObserver ob s =
     logEvent
       \<lparr>pe_phase = Some (currentPhase_or_default s), pe_type = Some ''observer_added'',
        pe_level = Some DEBUG, pe_data = None\<rparr>
       (s\<lparr>observers := (if oid ob \<in> oid ` set (observers s) then observers s
                          else observers s @ [ob])\<rparr>)"

definition removeObserver :: "LifecycleObserver \<Rightarrow> LifecycleEngine \<Rightarrow> bool \<times> LifecycleEngine" where
  "removeObserver ob s =
     (oid ob \<in> oid ` set (observers s),
      s\<lparr>observers := filter (\<lambda>x. oid x \<noteq> oid ob) (observers s)\<rparr>)"

section \<open>Observers\<close>

fun first_rejection :: "(nat \<times> string option) list \<Rightarrow> string option" where
  "first_rejection [] = None"
| "first_rejection ((i, None) # ps) = first_rejection ps"
| "first_rejection ((i, Some msg) # ps) = Some msg"

text \<open>
  \<open>await\<close> is the \<open>await\<close> of a promise made by one of the notification methods: the
  caller goes on when every collected promise has settled, and the \<open>await\<close> throws when
  the promise is rejected. (Of several rejections the model takes the first in the
  order of the calls.)
\<close>

definition await :: "promise \<times> LifecycleEngine \<Rightarrow> (error + unit) \<times> LifecycleEngine" where
  "await ps =
     (case ps of
        (Rejected e, s) \<Rightarrow> (Inl e, s)
      | (Pending promises, s) \<Rightarrow>
          if promises = [] then (Inr (), s)
          else
            (let s' = s\<lparr>trace := trace s @ [AwaitAll (map fst promises)]\<rparr>
             in case first_rejection promises of
                  Some msg \<Rightarrow> (Inl (Thrown msg), s')
                | None \<Rightarrow> (Inr (), s')))"

fun notifyObserversByMethod_loop ::
  "LifecycleObserver list \<Rightarrow> string \<Rightarrow> (nat \<times> string option) list \<Rightarrow>
   LifecycleEngine \<Rightarrow> promise \<times> LifecycleEngine" where
  "notifyObserversByMethod_loop [] methodName promises s = (Pending promises, s)"
| "notifyObserversByMethod_loop (ob # obs) methodName promises s =
     (case methods ob methodName of
        None \<Rightarrow> notifyObserversByMethod_loop obs methodName promises s
      | Some method \<Rightarrow>
          (let s' = s\<lparr>trace := trace s @ [ObserverCall (oid ob) methodName]\<rparr>
           in case method of
                Returns \<Rightarrow> notifyObserversByMethod_loop obs methodName promises s'
              | ReturnsPromise r \<Rightarrow>
                  notifyObserversByMethod_loop obs methodName (promises @ [(oid ob, r)]) s'
              | Throws msg \<Rightarrow> (Rejected (Thrown msg), s')))"

definition notifyObserversByMethod :: "string \<Rightarrow> LifecycleEngine \<Rightarrow> promise \<times> LifecycleEngine" where
  "notifyObserversByMethod methodName s =
     notifyObserversByMethod_loop (observers s) methodName [] s"

fun notifyObserversError_loop ::
  "LifecycleObserver list \<Rightarrow> error \<Rightarrow> LifecyclePhase \<Rightarrow> (nat \<times> string option) list \<Rightarrow>
   LifecycleEngine \<Rightarrow> promise \<times> LifecycleEngine" where
  "notifyObserversError_loop [] err p promises s = (Pending promises, s)"
| "notifyObserversError_loop (ob # obs) err p promises s =
     (case methods ob ''onError'' of
        None \<Rightarrow> notifyObserversError_loop obs err p promises s
      | Some method \<Rightarrow>
          (let s' = s\<lparr>trace := trace s @ [ObserverErrorCall (oid ob) err p]\<rparr>
           in case method of
                Returns \<Rightarrow> notifyObserversError_loop obs err p promises s'
              | ReturnsPromise r \<Rightarrow>
                  notifyObserversError_loop obs err p (promises @ [(oid ob, r)]) s'
              | Throws msg \<Rightarrow> (Rejected (Thrown msg), s')))"

definition notifyObserversError ::
  "error \<Rightarrow> LifecyclePhase \<Rightarrow> LifecycleEngine \<Rightarrow> promise \<times> LifecycleEngine" where
  "notifyObserversError err p s = notifyObserversError_loop (observers s) err p [] s"

definition notifyObservers :: "string \<Rightarrow> LifecycleEngine \<Rightarrow> (error + unit) \<times> LifecycleEngine" where
  "notifyObservers methodName s = await (notifyObserversByMethod methodName s)"

definition getPhaseMethodName :: "LifecyclePhase \<Rightarrow> string" where
  "getPhaseMethodName p =
     (case p of
        INITIALIZATION \<Rightarrow> ''Initialization''
      | PREPARATION \<Rightarrow> ''Preparation''
      | VALIDATION \<Rightarrow> ''Validation''
      | EXECUTION \<Rightarrow> ''Execution''
      | MONITORING \<Rightarrow> ''Monitoring''
      | CLEANUP \<Rightarrow> ''Cleanup'')"

text \<open>
  \<open>executePhase\<close> guards its two observer notifications with
  \<open>methodName in this.observers.values()\<close>. The right operand is the iterator object
  that \<open>Set.prototype.values\<close> returns, and \<open>in\<close> asks whether that object has a
  property of the given name, its own or inherited. These are the string-named
  properties of a Set iterator (of the iterator prototypes and of \<open>Object.prototype\<close>);
  the observers in the set play no part.
\<close>

definition set_iterator_properties :: "string list" where
  "set_iterator_properties =
     [''next'', ''constructor'', ''map'', ''filter'', ''take'', ''drop'', ''flatMap'',
      ''reduce'', ''toArray'', ''forEach'', ''some'', ''every'', ''find'',
      ''hasOwnProperty'', ''isPrototypeOf'', ''propertyIsEnumerable'', ''toLocaleString'',
      ''toString'', ''valueOf'', ''__proto__'', ''__defineGetter__'', ''__defineSetter__'',
      ''__lookupGetter__'', ''__lookupSetter__'']"

definition in_observers_values :: "string \<Rightarrow> LifecycleEngine \<Rightarrow> bool" where
  "in_observers_values methodName s = (methodName \<in> set set_iterator_properties)"

section \<open>Errors\<close>

definition handlePhaseError :: "error \<Rightarrow> LifecyclePhase \<Rightarrow> LifecycleEngine \<Rightarrow> LifecycleEngine" where
  "handlePhaseError err p s =
     (let s1 = (case ctx s of
                  Some c \<Rightarrow> s\<lparr>ctx := Some (c\<lparr>ctx_errors := ctx_errors c @ [err]\<rparr>)\<rparr>
                | None \<Rightarrow> s);
          s2 = logEvent
                 \<lparr>pe_phase = Some p, pe_type = Some ''phase_error'', pe_level = Some ERROR,
                  pe_data = Some (ErrorInfo err)\<rparr> s1
      in snd (notifyObserversError err p s2))"

definition handleLifecycleError :: "error \<Rightarrow> LifecycleEngine \<Rightarrow> LifecycleEngine" where
  "handleLifecycleError err s =
     logEvent
       \<lparr>pe_phase = Some (currentPhase_or_default s), pe_type = Some ''lifecycle_error'',
        pe_level = Some CRITICAL, pe_data = Some (ErrorInfo err)\<rparr> s"

section \<open>Running a module\<close>

text \<open>
  One round of the retry loop of \<open>executeModule\<close>, with the number of retries made so
  far. The answer \<open>Some r\<close> leaves the loop (\<open>break\<close> after a success, \<open>throw\<close> when the
  budget is used up) and \<open>None\<close> goes round again, after the delay. The context handed
  to the module is the engine's own context object, which \<open>executePhaseModules\<close> has
  obtained from \<open>getContext\<close>; the model reads it from the engine at the call.
\<close>

definition race :: "LifecycleModule \<Rightarrow> outcome \<Rightarrow> error + unit" where
  "race m out =
     (case out of
        Resolves \<Rightarrow> Inr ()
      | Rejects msg \<Rightarrow> Inl (Thrown msg)
      | Hangs \<Rightarrow> Inl (ModuleTimeout (name m)))"

definition executeModule_attempt ::
  "LifecycleModule \<Rightarrow> nat \<Rightarrow> LifecycleEngine \<Rightarrow> (error + unit) option \<times> LifecycleEngine" where
  "executeModule_attempt m retries s =
     (let s1 = logEvent
                 \<lparr>pe_phase = Some (phase m), pe_type = Some ''module_execute_start'',
                  pe_level = Some DEBUG, pe_data = None\<rparr> s;
          c = fst (getContext s1);
          out = execute m (executions s1 (mref m));
          s2 = s1\<lparr>executions := (executions s1)(mref m := executions s1 (mref m) + 1),
                  trace := trace s1 @
                    [ExecuteCall (mref m) (ctx_currentPhase c) (ctx_previousPhase c),
                     TimeoutArmed (phaseTimeout (config s1))]\<rparr>
      in case race m out of
           Inr u \<Rightarrow>
             (Some (Inr ()),
              logEvent
                \<lparr>pe_phase = Some (phase m), pe_type = Some ''module_execute_complete'',
                 pe_level = Some DEBUG, pe_data = None\<rparr> s2)
         | Inl err \<Rightarrow>
             (let retries' = retries + 1
              in if int retries' > maxRetries (config s2)
                 then
                   (Some (Inl err),
                    logEvent
                      \<lparr>pe_phase = Some (phase m), pe_type = Some ''module_execute_failed'',
                       pe_level = Some ERROR, pe_data = Some (FailedInfo err retries')\<rparr> s2)
                 else
                   (let s3 = logEvent
                               \<lparr>pe_phase = Some (phase m),
                                pe_type = Some ''module_execute_retry'',
                                pe_level = Some WARN,
                                pe_data = Some (RetryInfo err retries' (retryDelay (config s2)))\<rparr>
                               s2
                    in (None, s3\<lparr>trace := trace s3 @ [Delay (retryDelay (config s3))]\<rparr>))))"

function executeModule_loop ::
  "LifecycleModule \<Rightarrow> nat \<Rightarrow> LifecycleEngine \<Rightarrow> (error + unit) \<times> LifecycleEngine" where
  "executeModule_loop m retries s =
     (if int retries \<le> maxRetries (config s)
      then (case executeModule_attempt m retries s of
              (Some r, s') \<Rightarrow> (r, s')
            | (None, s') \<Rightarrow> executeModule_loop m (retries + 1) s')
      else (Inr (), s))"
  by pat_completeness auto
termination
proof (relation "measure (\<lambda>(m, retries, s). nat (maxRetries (config s) + 1 - int retries))")
  show "wf (measure (\<lambda>(m, retries, s). nat (maxRetries (config s) + 1 - int retries)))"
    by simp
next
  fix m :: LifecycleModule and retries :: nat and s x :: LifecycleEngine
    and a :: "(error + unit) option"
  assume le: "int retries \<le> maxRetries (config s)"
    and att: "(a, x) = executeModule_attempt m retries s"
  have nl: "config (snd (notifyListeners_loop ls e ps t)) = config t" for ls e ps t
    by (induction ls arbitrary: ps t) (auto simp: Let_def split: callback_result.splits)
  have lg: "config (logEvent e t) = config t" for e t
    by (simp add: logEvent_def Let_def outputLog_def notifyListeners_def nl
        split: option.splits)
  have "config x = config s"
    using att
    by (auto simp: executeModule_attempt_def Let_def lg split: sum.splits if_splits)
  with le show "((m, retries + 1, x), (m, retries, s))
      \<in> measure (\<lambda>(m, retries, s). nat (maxRetries (config s) + 1 - int retries))"
    by simp
qed

definition executeModule :: "LifecycleModule \<Rightarrow> LifecycleEngine \<Rightarrow> (error + unit) \<times> LifecycleEngine" where
  "executeModule m s = executeModule_loop m 0 s"

section \<open>Running a phase\<close>

fun executePhaseModules_loop ::
  "LifecycleModule list \<Rightarrow> LifecycleEngine \<Rightarrow> (error + unit) \<times> LifecycleEngine" where
  "executePhaseModules_loop [] s = (Inr (), s)"
| "executePhaseModules_loop (m # ms) s =
     (case executeModule m s of
        (Inl err, s') \<Rightarrow> (Inl err, s')
      | (Inr u, s') \<Rightarrow> executePhaseModules_loop ms s')"

definition executePhaseModules ::
  "LifecyclePhase \<Rightarrow> LifecycleEngine \<Rightarrow> (error + unit) \<times> LifecycleEngine" where
  "executePhaseModules p s =
     (let ms = (case modules s p of Some ms \<Rightarrow> ms | None \<Rightarrow> []);
          s1 = snd (getContext s)
      in executePhaseModules_loop ms s1)"

text \<open>The \<open>try\<close> block of \<open>executePhase\<close>.\<close>

definition executePhase_try ::
  "LifecyclePhase \<Rightarrow> LifecycleEngine \<Rightarrow> (error + unit) \<times> LifecycleEngine" where
  "executePhase_try p s =
     (let onStartMethod = ''on'' @ getPhaseMethodName p @ ''Start''
      in case (if in_observers_values onStartMethod s
               then await (notifyObserversByMethod onStartMethod s)
               else (Inr (), s)) of
           (Inl err, s1) \<Rightarrow> (Inl err, s1)
         | (Inr u, s1) \<Rightarrow>
             (let s2 = logEvent
                         \<lparr>pe_phase = Some p, pe_type = Some ''phase_start'',
                          pe_level = Some INFO, pe_data = None\<rparr> s1
              in case executePhaseModules p s2 of
                   (Inl err, s3) \<Rightarrow> (Inl err, s3)
                 | (Inr u, s3) \<Rightarrow>
                     (let onCompleteMethod = ''on'' @ getPhaseMethodName p @ ''Complete''
                      in case (if in_observers_values onCompleteMethod s3
                               then await (notifyObserversByMethod onCompleteMethod s3)
                               else (Inr (), s3)) of
                           (Inl err, s4) \<Rightarrow> (Inl err, s4)
                         | (Inr u, s4) \<Rightarrow>
                             (Inr (),
                              logEvent
                                \<lparr>pe_phase = Some p, pe_type = Some ''phase_complete'',
                                 pe_level = Some INFO, pe_data = None\<rparr> s4))))"

text \<open>The \<open>finally\<close> block of \<open>executePhase\<close> (without the durations).\<close>

definition executePhase_finally ::
  "LifecyclePhase \<Rightarrow> ExecutionResult \<Rightarrow> LifecycleEngine \<Rightarrow> LifecycleEngine" where
  "executePhase_finally p result s =
     (let ps = phaseStats (stats s) p;
          ps1 = ps\<lparr>executionCount := executionCount ps + 1\<rparr>;
          ps2 = (if result = SUCCESS then ps1\<lparr>successCount := successCount ps1 + 1\<rparr>
                 else ps1\<lparr>failureCount := failureCount ps1 + 1\<rparr>)
      in s\<lparr>stats := (stats s)\<lparr>phaseStats := (phaseStats (stats s))(p := ps2)\<rparr>\<rparr>)"

definition executePhase ::
  "LifecyclePhase \<Rightarrow> LifecycleEngine \<Rightarrow> (error + unit) \<times> LifecycleEngine" where
  "executePhase p s =
     (let s1 = s\<lparr>currentPhase := Some p\<rparr>;
          (c, s2) = getContext s1;
          s3 = s2\<lparr>ctx := Some (c\<lparr>ctx_previousPhase := Some (ctx_currentPhase c),
                                  ctx_currentPhase := p\<rparr>)\<rparr>
      in case executePhase_try p s3 of
           (Inr u, s4) \<Rightarrow> (Inr (), executePhase_finally p SUCCESS s4)
         | (Inl err, s4) \<Rightarrow>
             (let s5 = handlePhaseError err p s4
              in if \<not> continueOnError (config s5)
                 then (Inl err, executePhase_finally p FAILURE s5)
                 else (Inr (), executePhase_finally p FAILURE s5)))"

section \<open>The engine's public operations\<close>

text \<open>The \<open>try\<close> block of \<open>initialize\<close>.\<close>

definition initialize_try :: "LifecycleEngine \<Rightarrow> (error + unit) \<times> LifecycleEngine" where
  "initialize_try s =
     (let s1 = s\<lparr>state := PREPARING\<rparr>;
          s2 = s1\<lparr>ctx := Some (createContext s1)\<rparr>;
          s3 = logEvent
                 \<lparr>pe_phase = Some INITIALIZATION, pe_type = Some ''initialization_start'',
                  pe_level = Some INFO, pe_data = None\<rparr> s2
      in case notifyObservers ''onInitializationStart'' s3 of
           (Inl err, s4) \<Rightarrow> (Inl err, s4)
         | (Inr u, s4) \<Rightarrow>
             (case executePhaseModules INITIALIZATION s4 of
                (Inl err, s5) \<Rightarrow> (Inl err, s5)
              | (Inr u, s5) \<Rightarrow>
                  (case notifyObservers ''onInitializationComplete'' s5 of
                     (Inl err, s6) \<Rightarrow> (Inl err, s6)
                   | (Inr u, s6) \<Rightarrow>
                       (Inr (),
                        logEvent
                          \<lparr>pe_phase = Some INITIALIZATION,
                           pe_type = Some ''initialization_complete'',
                           pe_level = Some INFO, pe_data = None\<rparr>
                          (s6\<lparr>state := STOPPED\<rparr>)))))"

definition initialize :: "LifecycleEngine \<Rightarrow> (error + unit) \<times> LifecycleEngine" where
  "initialize s =
     (if state s \<noteq> UNINITIALIZED then (Inl AlreadyInitialized, s)
      else (case initialize_try s of
              (Inr u, s') \<Rightarrow> (Inr (), s')
            | (Inl err, s') \<Rightarrow>
                (Inl err, handlePhaseError err INITIALIZATION (s'\<lparr>state := STATE_ERROR\<rparr>))))"

fun start_phases ::
  "LifecyclePhase list \<Rightarrow> LifecycleEngine \<Rightarrow> (error + unit) \<times> LifecycleEngine" where
  "start_phases [] s = (Inr (), s)"
| "start_phases (p # ps) s =
     (case executePhase p s of
        (Inl err, s') \<Rightarrow> (Inl err, s')
      | (Inr u, s') \<Rightarrow> start_phases ps s')"

text \<open>The \<open>try\<close> block of \<open>start\<close>.\<close>

definition start_try :: "LifecycleEngine \<Rightarrow> (error + unit) \<times> LifecycleEngine" where
  "start_try s =
     (let s1 = s\<lparr>state := RUNNING\<rparr>;
          s2 = logEvent
                 \<lparr>pe_phase = Some INITIALIZATION, pe_type = Some ''lifecycle_start'',
                  pe_level = Some INFO, pe_data = None\<rparr> s1
      in case start_phases [PREPARATION, VALIDATION, EXECUTION, MONITORING, CLEANUP] s2 of
           (Inl err, s3) \<Rightarrow> (Inl err, s3)
         | (Inr u, s3) \<Rightarrow>
             (let s4 = s3\<lparr>stats := (stats s3)
                           \<lparr>totalExecutions := totalExecutions (stats s3) + 1,
                            successfulExecutions := successfulExecutions (stats s3) + 1\<rparr>\<rparr>;
                  s5 = s4\<lparr>state := STOPPED\<rparr>
              in (Inr (),
                  logEvent
                    \<lparr>pe_phase = Some CLEANUP, pe_type = Some ''lifecycle_complete'',
                     pe_level = Some INFO, pe_data = None\<rparr> s5)))"

definition start :: "LifecycleEngine \<Rightarrow> (error + unit) \<times> LifecycleEngine" where
  "start s =
     (case (if state s = UNINITIALIZED then initialize s else (Inr (), s)) of
        (Inl err, s0) \<Rightarrow> (Inl err, s0)
      | (Inr u, s0) \<Rightarrow>
          if state s0 \<noteq> STOPPED \<and> state s0 \<noteq> PAUSED then (Inl InvalidStartState, s0)
          else (case start_try s0 of
                  (Inr u, s1) \<Rightarrow> (Inr (), s1)
                | (Inl err, s1) \<Rightarrow>
                    (let s2 = s1\<lparr>state := STATE_ERROR\<rparr>;
                         s3 = s2\<lparr>stats := (stats s2)
                                  \<lparr>totalExecutions := totalExecutions (stats s2) + 1,
                                   failedExecutions := failedExecutions (stats s2) + 1\<rparr>\<rparr>
                     in (Inl err, handleLifecycleError err s3))))"

definition getState :: "LifecycleEngine \<Rightarrow> LifecycleState" where
  "getState s = state s"

definition getCurrentPhase :: "LifecycleEngine \<Rightarrow> LifecyclePhase option" where
  "getCurrentPhase s = currentPhase s"

definition getStats :: "LifecycleEngine \<Rightarrow> LifecycleStats" where
  "getStats s = stats s"

definition pause :: "LifecycleEngine \<Rightarrow> LifecycleEngine" where
  "pause s =
     (if state s = RUNNING
      then logEvent
             \<lparr>pe_phase = Some (currentPhase_or_default s), pe_type = Some ''lifecycle_paused'',
              pe_level = Some INFO, pe_data = None\<rparr> (s\<lparr>state := PAUSED\<rparr>)
      else s)"

definition resume :: "LifecycleEngine \<Rightarrow> LifecycleEngine" where
  "resume s =
     (if state s = PAUSED
      then logEvent
             \<lparr>pe_phase = Some (currentPhase_or_default s), pe_type = Some ''lifecycle_resumed'',
              pe_level = Some INFO, pe_data = None\<rparr> (s\<lparr>state := RUNNING\<rparr>)
      else s)"

definition stop :: "LifecycleEngine \<Rightarrow> LifecycleEngine" where
  "stop s =
     (if state s \<noteq> STOPPED
      then logEvent
             \<lparr>pe_phase = Some (currentPhase_or_default s), pe_type = Some ''lifecycle_stopped'',
              pe_level = Some INFO, pe_data = None\<rparr> (s\<lparr>state := STOPPED\<rparr>)
      else s)"

section \<open>Observations\<close>

text \<open>
  The definitions of this section are not part of the engine: they are the vocabulary of
  the statements below. \<open>engine_calls\<close> is a trace without the listener calls and the
  console lines that every \<open>logEvent\<close> adds; \<open>exec_calls\<close> lists the module objects
  whose \<open>execute\<close> was called, in order; \<open>log_of\<close> is the event list of the context and
  \<open>kinds\<close> keeps the phase, the type and the level of each event; \<open>core\<close> and \<open>static\<close>
  forget the parts of the engine that logging (respectively logging and running a
  module) changes; \<open>listener_calls\<close>, \<open>observer_calls\<close> and \<open>observer_error_calls\<close> are
  the calls that one notification makes: every callee in turn, up to the first that
  throws; \<open>logEvents\<close> is a sequence of calls of \<open>logEvent\<close> and \<open>fullEvents\<close> the
  events that they build.

  \<open>call_of m s\<close> is the call of \<open>execute\<close> that the module \<open>m\<close> receives with the context
  of \<open>s\<close>, and \<open>module_actions\<close> the three actions of one attempt; \<open>progress m k s s'\<close>
  says that \<open>s'\<close> is \<open>s\<close> after \<open>k\<close> calls of \<open>m\<close>, with the given actions and events
  added; \<open>phase_entry\<close> is \<open>executePhase\<close> up to its \<open>phase_start\<close> event and
  \<open>start_entry\<close> is \<open>start\<close> up to its \<open>lifecycle_start\<close> event and \<open>init_entry\<close> is
  \<open>initialize\<close> up to its \<open>initialization_start\<close> event; \<open>phase_modules\<close> reads
  the registry as \<open>this.modules.get(phase) || []\<close> does; \<open>errors_of\<close> is the error list
  of the context. \<open>grows A s s'\<close> says that the engine's calls from \<open>s\<close> to \<open>s'\<close> are all
  of the kind \<open>A\<close>: \<open>run_action\<close> for what running modules adds, \<open>init_action\<close> with the
  observers' notifications as well; \<open>kept\<close> adds that the registry and the configuration
  are unchanged. \<open>tagged q p L s1 s2\<close> compares two engines that differ only in the
  phase carried by the events logged after the prefix \<open>L\<close>.
\<close>

definition is_log_action :: "action \<Rightarrow> bool" where
  "is_log_action a = (case a of ListenerCall l e \<Rightarrow> True | ConsoleLog e \<Rightarrow> True | _ \<Rightarrow> False)"

definition engine_calls :: "action list \<Rightarrow> action list" where
  "engine_calls t = filter (\<lambda>a. \<not> is_log_action a) t"

definition core :: "LifecycleEngine \<Rightarrow> LifecycleEngine" where
  "core s = s\<lparr>eventHistory := [], eventCounter := 0,
              ctx := map_option (\<lambda>c. c\<lparr>ctx_events := []\<rparr>) (ctx s),
              trace := engine_calls (trace s)\<rparr>"

definition log_of :: "LifecycleEngine \<Rightarrow> LifecycleEvent list" where
  "log_of s = (case ctx s of Some c \<Rightarrow> ctx_events c | None \<Rightarrow> [])"

fun logEvents :: "PartialEvent list \<Rightarrow> LifecycleEngine \<Rightarrow> LifecycleEngine" where
  "logEvents [] s = s"
| "logEvents (e # es) s = logEvents es (logEvent e s)"

fun fullEvents :: "PartialEvent list \<Rightarrow> nat \<Rightarrow> LifecyclePhase option \<Rightarrow> LifecycleEvent list" where
  "fullEvents [] n cur = []"
| "fullEvents (e # es) n cur = fullEvent e (n + 1) cur # fullEvents es (n + 1) cur"

fun listener_calls :: "LifecycleListener list \<Rightarrow> LifecycleEvent \<Rightarrow> action list" where
  "listener_calls [] e = []"
| "listener_calls (l # ls) e =
     ListenerCall (lid l) e #
       (case on_event l e of Throws msg \<Rightarrow> [] | Returns \<Rightarrow> listener_calls ls e | ReturnsPromise r \<Rightarrow> listener_calls ls e)"

definition static :: "LifecycleEngine \<Rightarrow> LifecycleEngine" where
  "static s = s\<lparr>eventHistory := [], eventCounter := 0,
                ctx := map_option (\<lambda>c. c\<lparr>ctx_events := []\<rparr>) (ctx s),
                executions := (\<lambda>r. 0), trace := []\<rparr>"

definition kinds :: "LifecycleEvent list \<Rightarrow> (LifecyclePhase \<times> string \<times> EventLevel) list" where
  "kinds es = map (\<lambda>e. (ev_phase e, ev_type e, ev_level e)) es"

definition exec_calls :: "action list \<Rightarrow> nat list" where
  "exec_calls t = concat (map (\<lambda>a. case a of ExecuteCall r cp pp \<Rightarrow> [r] | _ \<Rightarrow> []) t)"

fun observer_calls :: "LifecycleObserver list \<Rightarrow> string \<Rightarrow> action list" where
  "observer_calls [] mn = []"
| "observer_calls (ob # obs) mn =
     (case methods ob mn of
        None \<Rightarrow> observer_calls obs mn
      | Some Returns \<Rightarrow> ObserverCall (oid ob) mn # observer_calls obs mn
      | Some (ReturnsPromise r) \<Rightarrow> ObserverCall (oid ob) mn # observer_calls obs mn
      | Some (Throws msg) \<Rightarrow> [ObserverCall (oid ob) mn])"

fun observer_error_calls :: "LifecycleObserver list \<Rightarrow> error \<Rightarrow> LifecyclePhase \<Rightarrow> action list" where
  "observer_error_calls [] err p = []"
| "observer_error_calls (ob # obs) err p =
     (case methods ob ''onError'' of
        None \<Rightarrow> observer_error_calls obs err p
      | Some Returns \<Rightarrow> ObserverErrorCall (oid ob) err p # observer_error_calls obs err p
      | Some (ReturnsPromise r) \<Rightarrow> ObserverErrorCall (oid ob) err p # observer_error_calls obs err p
      | Some (Throws msg) \<Rightarrow> [ObserverErrorCall (oid ob) err p])"

definition call_of :: "LifecycleModule \<Rightarrow> LifecycleEngine \<Rightarrow> action" where
  "call_of m s =
     (let c = fst (getContext s)
      in ExecuteCall (mref m) (ctx_currentPhase c) (ctx_previousPhase c))"

definition progress ::
  "LifecycleModule \<Rightarrow> nat \<Rightarrow> LifecycleEngine \<Rightarrow> LifecycleEngine \<Rightarrow> action list \<Rightarrow>
   (LifecyclePhase \<times> string \<times> EventLevel) list \<Rightarrow> bool" where
  "progress m k s s' acts evs =
     (static s' = static s \<and>
      executions s' = (executions s)(mref m := executions s (mref m) + k) \<and>
      engine_calls (trace s') = engine_calls (trace s) @ acts \<and>
      eventCounter s' = eventCounter s + length evs \<and>
      kinds (log_of s') = kinds (log_of s) @ (if ctx s = None then [] else evs))"

definition phase_entry :: "LifecyclePhase \<Rightarrow> LifecycleEngine \<Rightarrow> LifecycleEngine" where
  "phase_entry p s =
     (let s1 = s\<lparr>currentPhase := Some p\<rparr>;
          c = fst (getContext s1)
      in logEvent
           \<lparr>pe_phase = Some p, pe_type = Some ''phase_start'', pe_level = Some INFO,
            pe_data = None\<rparr>
           (s1\<lparr>ctx := Some (c\<lparr>ctx_previousPhase := Some (ctx_currentPhase c),
                                 ctx_currentPhase := p\<rparr>)\<rparr>))"

definition phase_modules :: "LifecyclePhase \<Rightarrow> LifecycleEngine \<Rightarrow> LifecycleModule list" where
  "phase_modules p s = (case modules s p of Some ms \<Rightarrow> ms | None \<Rightarrow> [])"

definition module_actions :: "LifecycleModule \<Rightarrow> LifecycleEngine \<Rightarrow> action set" where
  "module_actions m s =
     {call_of m s, TimeoutArmed (phaseTimeout (config s)), Delay (retryDelay (config s))}"

definition run_action :: "action \<Rightarrow> bool" where
  "run_action a =
     (case a of
        ExecuteCall r cp pp \<Rightarrow> True
      | TimeoutArmed t \<Rightarrow> True
      | Delay t \<Rightarrow> True
      | ObserverErrorCall ob err p \<Rightarrow> True
      | _ \<Rightarrow> False)"

definition init_action :: "action \<Rightarrow> bool" where
  "init_action a =
     (case a of
        ObserverCall ob mn \<Rightarrow> True
      | AwaitAll is \<Rightarrow> True
      | _ \<Rightarrow> run_action a)"

definition grows :: "(action \<Rightarrow> bool) \<Rightarrow> LifecycleEngine \<Rightarrow> LifecycleEngine \<Rightarrow> bool" where
  "grows A s s' = (\<exists>xs. engine_calls (trace s') = engine_calls (trace s) @ xs \<and> list_all A xs)"


definition is_ObserverCall :: "action \<Rightarrow> bool" where
  "is_ObserverCall a = (case a of ObserverCall ob mn \<Rightarrow> True | _ \<Rightarrow> False)"

definition is_AwaitAll :: "action \<Rightarrow> bool" where
  "is_AwaitAll a = (case a of AwaitAll is \<Rightarrow> True | _ \<Rightarrow> False)"

definition errors_of :: "LifecycleEngine \<Rightarrow> error list" where
  "errors_of s = (case ctx s of Some c \<Rightarrow> ctx_errors c | None \<Rightarrow> [])"

definition start_entry :: "LifecycleEngine \<Rightarrow> LifecycleEngine" where
  "start_entry s =
     logEvent
       \<lparr>pe_phase = Some INITIALIZATION, pe_type = Some ''lifecycle_start'',
        pe_level = Some INFO, pe_data = None\<rparr> (s\<lparr>state := RUNNING\<rparr>)"

definition kept :: "LifecycleEngine \<Rightarrow> LifecycleEngine \<Rightarrow> bool" where
  "kept s s' = (modules s' = modules s \<and> config s' = config s \<and> grows init_action s s')"


definition init_entry :: "LifecycleEngine \<Rightarrow> LifecycleEngine" where
  "init_entry s =
     (let s1 = s\<lparr>state := PREPARING\<rparr>;
          s2 = s1\<lparr>ctx := Some (createContext s1)\<rparr>
      in logEvent
           \<lparr>pe_phase = Some INITIALIZATION, pe_type = Some ''initialization_start'',
            pe_level = Some INFO, pe_data = None\<rparr> s2)"

text \<open>Engines and events for the examples.\<close>

definition small_history_engine :: LifecycleEngine where
  "small_history_engine = new_LifecycleEngine (default_config\<lparr>maxHistorySize := 2\<rparr>)"

definition info_event :: PartialEvent where
  "info_event =
     \<lparr>pe_phase = None, pe_type = Some ''note'', pe_level = Some INFO, pe_data = None\<rparr>"

definition running_engine :: LifecycleEngine where
  "running_engine = (new_LifecycleEngine default_config)\<lparr>state := RUNNING\<rparr>"

definition failing_module :: LifecycleModule where
  "failing_module =
     \<lparr>name = ''failing'', version = ''1.0.0'', phase = VALIDATION, isInitialized = False,
      initialize_is_function = True, mref = 1, execute = (\<lambda>n. Rejects ''boom'')\<rparr>"

definition flaky_module :: LifecycleModule where
  "flaky_module =
     \<lparr>name = ''flaky'', version = ''1.0.0'', phase = EXECUTION, isInitialized = False,
      initialize_is_function = True, mref = 2,
      execute = (\<lambda>n. if n < 2 then Hangs else Resolves)\<rparr>"

definition ok_module :: LifecycleModule where
  "ok_module =
     \<lparr>name = ''ok'', version = ''1.0.0'', phase = PREPARATION, isInitialized = False,
      initialize_is_function = True, mref = 3, execute = (\<lambda>n. Resolves)\<rparr>"

definition continue_engine :: LifecycleEngine where
  "continue_engine =
     stop (snd (registerModule PREPARATION ok_module
       (snd (registerModule PREPARATION failing_module
         (new_LifecycleEngine (default_config\<lparr>continueOnError := True, maxRetries := 1\<rparr>))))))"

definition abort_engine :: LifecycleEngine where
  "abort_engine =
     stop (snd (registerModule EXECUTION ok_module
       (snd (registerModule VALIDATION failing_module
         (new_LifecycleEngine (default_config\<lparr>maxRetries := 0\<rparr>))))))"

definition phase_observer :: LifecycleObserver where
  "phase_observer =
     \<lparr>oid = 7,
      methods = [''onPreparationStart'' \<mapsto> Returns, ''onPreparationComplete'' \<mapsto> Returns,
                 ''onValidationStart'' \<mapsto> Returns, ''onValidationComplete'' \<mapsto> Returns,
                 ''onExecutionStart'' \<mapsto> Returns, ''onExecutionComplete'' \<mapsto> Returns,
                 ''onMonitoringStart'' \<mapsto> Returns, ''onMonitoringComplete'' \<mapsto> Returns,
                 ''onCleanupStart'' \<mapsto> Returns, ''onCleanupComplete'' \<mapsto> Returns]\<rparr>"

definition observed_engine :: LifecycleEngine where
  "observed_engine = stop (addObserver phase_observer (new_LifecycleEngine default_config))"

definition async_listener :: LifecycleListener where
  "async_listener = \<lparr>lid = 5, on_event = (\<lambda>e. ReturnsPromise None)\<rparr>"

definition listening_engine :: LifecycleEngine where
  "listening_engine = addEventListener async_listener (new_LifecycleEngine default_config)"

definition fresh_engine :: LifecycleEngine where
  "fresh_engine = snd (registerModule PREPARATION ok_module (new_LifecycleEngine default_config))"

definition ready_engine :: LifecycleEngine where
  "ready_engine = stop fresh_engine"

definition init_failing_engine :: LifecycleEngine where
  "init_failing_engine =
     snd (registerModule PREPARATION ok_module
       (snd (registerModule INITIALIZATION failing_module
         (new_LifecycleEngine (default_config\<lparr>continueOnError := True, maxRetries := 1\<rparr>)))))"

section \<open>Properties of the engine\<close>

lemma engine_calls_simps [simp]:
  "engine_calls [] = []"
  "engine_calls (xs @ ys) = engine_calls xs @ engine_calls ys"
  "engine_calls (ListenerCall l e # xs) = engine_calls xs"
  "engine_calls (ConsoleLog e # xs) = engine_calls xs"
  "engine_calls (ObserverCall ob mn # xs) = ObserverCall ob mn # engine_calls xs"
  "engine_calls (ObserverErrorCall ob err p # xs) = ObserverErrorCall ob err p # engine_calls xs"
  "engine_calls (InitializeCall r # xs) = InitializeCall r # engine_calls xs"
  "engine_calls (ExecuteCall r cp pp # xs) = ExecuteCall r cp pp # engine_calls xs"
  "engine_calls (CleanupCall r # xs) = CleanupCall r # engine_calls xs"
  "engine_calls (TimeoutArmed t # xs) = TimeoutArmed t # engine_calls xs"
  "engine_calls (Delay t # xs) = Delay t # engine_calls xs"
  "engine_calls (AwaitAll is # xs) = AwaitAll is # engine_calls xs"
  by (simp_all add: engine_calls_def is_log_action_def)

lemma notifyListeners_loop_state:
  "snd (notifyListeners_loop ls e ps s) = s\<lparr>trace := trace s @ listener_calls ls e\<rparr>"
  by (induction ls arbitrary: ps s) (auto simp: Let_def split: callback_result.splits)

lemma engine_calls_listener_calls [simp]: "engine_calls (listener_calls ls e) = []"
  by (induction ls) (auto split: callback_result.splits)

lemma logEvent_eq:
  "logEvent e s =
     (let ev = fullEvent e (eventCounter s + 1) (currentPhase s)
      in s\<lparr>eventCounter := eventCounter s + 1,
           eventHistory :=
             (if saveHistory (config s)
              then (if int (length (eventHistory s)) + 1 > maxHistorySize (config s)
                    then tl (eventHistory s @ [ev]) else eventHistory s @ [ev])
              else eventHistory s),
           ctx := map_option (\<lambda>c. c\<lparr>ctx_events := ctx_events c @ [ev]\<rparr>) (ctx s),
           trace := trace s @ listener_calls (listeners s) ev @
                    (if enableDebugLogging (config s) \<or> ev_level ev \<noteq> DEBUG
                     then [ConsoleLog ev] else [])\<rparr>)"
  by (simp add: logEvent_def Let_def outputLog_def notifyListeners_def notifyListeners_loop_state
        split: option.splits)

lemma logEvent_parts [simp]:
  "state (logEvent e s) = state s"
  "currentPhase (logEvent e s) = currentPhase s"
  "modules (logEvent e s) = modules s"
  "listeners (logEvent e s) = listeners s"
  "observers (logEvent e s) = observers s"
  "stats (logEvent e s) = stats s"
  "config (logEvent e s) = config s"
  "executions (logEvent e s) = executions s"
  "eventCounter (logEvent e s) = eventCounter s + 1"
  "engine_calls (trace (logEvent e s)) = engine_calls (trace s)"
  by (simp_all add: logEvent_eq Let_def)

lemma ctx_logEvent:
  "ctx (logEvent e s) =
     map_option (\<lambda>c. c\<lparr>ctx_events := ctx_events c @ [fullEvent e (eventCounter s + 1) (currentPhase s)]\<rparr>) (ctx s)"
  by (simp add: logEvent_eq Let_def)

lemma eventHistory_logEvent:
  "saveHistory (config s) \<Longrightarrow> int (length (eventHistory s)) \<le> maxHistorySize (config s) \<Longrightarrow>
   eventHistory (logEvent e s) =
     drop (length (eventHistory s) + 1 - nat (maxHistorySize (config s)))
       (eventHistory s @ [fullEvent e (eventCounter s + 1) (currentPhase s)])"
  by (auto simp: logEvent_eq Let_def drop_Suc nat_le_iff tl_append split: list.splits)

lemma core_logEvent [simp]: "core (logEvent e s) = core s"
  by (simp add: logEvent_eq Let_def core_def option.map_comp comp_def)

lemma drop_drop_append: "i \<le> length xs \<Longrightarrow> drop j (drop i xs @ ys) = drop (i + j) (xs @ ys)"
  by (simp add: add.commute)

lemma eventHistory_logEvents:
  "saveHistory (config s) \<Longrightarrow> int (length (eventHistory s)) \<le> maxHistorySize (config s) \<Longrightarrow>
   eventHistory (logEvents es s) =
     drop (length (eventHistory s) + length es - nat (maxHistorySize (config s)))
       (eventHistory s @ fullEvents es (eventCounter s) (currentPhase s))"
proof (induction es arbitrary: s)
  case Nil
  then show ?case by simp
next
  case (Cons e es)
  let ?s = "logEvent e s"
  let ?ev = "fullEvent e (eventCounter s + 1) (currentPhase s)"
  let ?M = "nat (maxHistorySize (config s))"
  let ?h = "eventHistory s"
  let ?i = "length ?h + 1 - ?M"
  let ?F = "fullEvents es (eventCounter s + 1) (currentPhase s)"
  have h1: "eventHistory ?s = drop ?i (?h @ [?ev])"
    using Cons.prems by (rule eventHistory_logEvent)
  have len: "int (length (eventHistory ?s)) \<le> maxHistorySize (config ?s)"
    using Cons.prems by (simp add: h1)
  have i_le: "?i \<le> length (?h @ [?ev])" by simp
  have hM: "length ?h \<le> ?M" using Cons.prems by linarith
  have ld: "length (drop ?i (?h @ [?ev])) = length ?h + 1 - ?i" by simp
  have arith: "?i + (length (drop ?i (?h @ [?ev])) + length es - ?M) = length ?h + length (e # es) - ?M"
    unfolding ld using hM by (cases "length ?h = ?M") simp_all
  have "eventHistory (logEvents (e # es) s) =
        drop (length (eventHistory ?s) + length es - ?M) (eventHistory ?s @ ?F)"
    using Cons.IH [of ?s] Cons.prems len by simp
  also have "\<dots> = drop (length (drop ?i (?h @ [?ev])) + length es - ?M) (drop ?i (?h @ [?ev]) @ ?F)"
    by (simp only: h1)
  also have "\<dots> = drop (?i + (length (drop ?i (?h @ [?ev])) + length es - ?M)) ((?h @ [?ev]) @ ?F)"
    using i_le by (rule drop_drop_append)
  also have "\<dots> = drop (length ?h + length (e # es) - ?M)
                    (?h @ fullEvents (e # es) (eventCounter s) (currentPhase s))"
    by (simp only: arith) simp
  finally show ?case .
qed

lemma static_core: "static s = (core s)\<lparr>executions := (\<lambda>r. 0), trace := []\<rparr>"
  by (simp add: static_def core_def)

lemma static_logEvent [simp]: "static (logEvent e s) = static s"
  by (simp add: static_core)

lemma static_trace_update [simp]: "static (s\<lparr>trace := t\<rparr>) = static s"
  by (simp add: static_def)

lemma static_executions_update [simp]: "static (s\<lparr>executions := x\<rparr>) = static s"
  by (simp add: static_def)

lemma static_fields:
  assumes "static s' = static s"
  shows "state s' = state s" "currentPhase s' = currentPhase s" "modules s' = modules s"
    "listeners s' = listeners s" "observers s' = observers s" "stats s' = stats s"
    "config s' = config s"
    "map_option ctx_currentPhase (ctx s') = map_option ctx_currentPhase (ctx s)"
    "map_option ctx_previousPhase (ctx s') = map_option ctx_previousPhase (ctx s)"
    "map_option ctx_errors (ctx s') = map_option ctx_errors (ctx s)"
    "(ctx s' = None) = (ctx s = None)"
proof -
  have c: "ctx (static s') = ctx (static s)" using assms by simp
  show "state s' = state s" using arg_cong [OF assms, of state] by (simp add: static_def)
  show "currentPhase s' = currentPhase s"
    using arg_cong [OF assms, of currentPhase] by (simp add: static_def)
  show "modules s' = modules s" using arg_cong [OF assms, of modules] by (simp add: static_def)
  show "listeners s' = listeners s"
    using arg_cong [OF assms, of listeners] by (simp add: static_def)
  show "observers s' = observers s"
    using arg_cong [OF assms, of observers] by (simp add: static_def)
  show "stats s' = stats s" using arg_cong [OF assms, of stats] by (simp add: static_def)
  show "config s' = config s" using arg_cong [OF assms, of config] by (simp add: static_def)
  show "map_option ctx_currentPhase (ctx s') = map_option ctx_currentPhase (ctx s)"
    using arg_cong [OF c, of "map_option ctx_currentPhase"]
    by (simp add: static_def option.map_comp comp_def)
  show "map_option ctx_previousPhase (ctx s') = map_option ctx_previousPhase (ctx s)"
    using arg_cong [OF c, of "map_option ctx_previousPhase"]
    by (simp add: static_def option.map_comp comp_def)
  show "map_option ctx_errors (ctx s') = map_option ctx_errors (ctx s)"
    using arg_cong [OF c, of "map_option ctx_errors"]
    by (simp add: static_def option.map_comp comp_def)
  show "(ctx s' = None) = (ctx s = None)"
    using c by (cases "ctx s'"; cases "ctx s") (simp_all add: static_def)
qed

lemma exec_calls_simps [simp]:
  "exec_calls [] = []"
  "exec_calls (xs @ ys) = exec_calls xs @ exec_calls ys"
  "exec_calls (ExecuteCall r cp pp # xs) = r # exec_calls xs"
  "exec_calls (ListenerCall l e # xs) = exec_calls xs"
  "exec_calls (ConsoleLog e # xs) = exec_calls xs"
  "exec_calls (ObserverCall ob mn # xs) = exec_calls xs"
  "exec_calls (ObserverErrorCall ob err p # xs) = exec_calls xs"
  "exec_calls (InitializeCall r # xs) = exec_calls xs"
  "exec_calls (CleanupCall r # xs) = exec_calls xs"
  "exec_calls (TimeoutArmed t # xs) = exec_calls xs"
  "exec_calls (Delay t # xs) = exec_calls xs"
  "exec_calls (AwaitAll is # xs) = exec_calls xs"
  by (simp_all add: exec_calls_def)

lemma exec_calls_engine_calls [simp]: "exec_calls (engine_calls t) = exec_calls t"
  by (induction t) (auto simp: engine_calls_def is_log_action_def exec_calls_def split: action.splits)

lemma notifyObserversByMethod_loop_state:
  "snd (notifyObserversByMethod_loop obs mn ps s) = s\<lparr>trace := trace s @ observer_calls obs mn\<rparr>"
  by (induction obs arbitrary: ps s) (auto simp: Let_def split: callback_result.splits option.splits)

lemma notifyObserversError_loop_state:
  "snd (notifyObserversError_loop obs err p ps s) =
     s\<lparr>trace := trace s @ observer_error_calls obs err p\<rparr>"
  by (induction obs arbitrary: ps s) (auto simp: Let_def split: callback_result.splits option.splits)

lemma handlePhaseError_eq:
  "handlePhaseError err p s =
     (let s2 = logEvent
                 \<lparr>pe_phase = Some p, pe_type = Some ''phase_error'', pe_level = Some ERROR,
                  pe_data = Some (ErrorInfo err)\<rparr>
                 (s\<lparr>ctx := map_option (\<lambda>c. c\<lparr>ctx_errors := ctx_errors c @ [err]\<rparr>) (ctx s)\<rparr>)
      in s2\<lparr>trace := trace s2 @ observer_error_calls (observers s) err p\<rparr>)"
proof (cases "ctx s")
  case None
  then have e: "s\<lparr>ctx := None\<rparr> = s" by simp
  from None show ?thesis
    by (simp add: handlePhaseError_def Let_def notifyObserversError_def
        notifyObserversError_loop_state) (simp only: e)
next
  case (Some c)
  then show ?thesis
    by (simp add: handlePhaseError_def Let_def notifyObserversError_def
        notifyObserversError_loop_state)
qed

lemma kinds_simps [simp]:
  "kinds [] = []"
  "kinds (xs @ ys) = kinds xs @ kinds ys"
  "kinds (e # es) = (ev_phase e, ev_type e, ev_level e) # kinds es"
  by (simp_all add: kinds_def)

lemma log_of_logEvent:
  "log_of (logEvent e s) =
     log_of s @ (if ctx s = None then []
                 else [fullEvent e (eventCounter s + 1) (currentPhase s)])"
  by (cases "ctx s") (simp_all add: log_of_def ctx_logEvent)

lemma log_of_updates [simp]:
  "log_of (s\<lparr>trace := t\<rparr>) = log_of s"
  "log_of (s\<lparr>executions := x\<rparr>) = log_of s"
  "log_of (s\<lparr>state := st\<rparr>) = log_of s"
  "log_of (s\<lparr>stats := sa\<rparr>) = log_of s"
  by (simp_all add: log_of_def)

lemma call_of_static: "static s' = static s \<Longrightarrow> call_of m s' = call_of m s"
proof -
  assume a: "static s' = static s"
  note f = static_fields [OF a]
  show ?thesis
  proof (cases "ctx s")
    case None
    with f(11) have "ctx s' = None" by simp
    with None f(2) show ?thesis by (simp add: call_of_def getContext_def createContext_def)
  next
    case (Some c)
    with f(11) obtain c' where c': "ctx s' = Some c'" by (cases "ctx s'") auto
    with Some f(8,9) show ?thesis by (simp add: call_of_def getContext_def)
  qed
qed

lemma call_of_logEvent [simp]: "call_of m (logEvent e s) = call_of m s"
  by (rule call_of_static) simp

lemma progress_refl: "progress m 0 s s [] []"
  by (simp add: progress_def)

lemma progress_trans:
  assumes "progress m k s s' a e" and "progress m k' s' s'' a' e'"
  shows "progress m (k + k') s s'' (a @ a') (e @ e')"
proof -
  have st1: "static s' = static s" and st2: "static s'' = static s'"
    using assms by (simp_all only: progress_def)
  have ex1: "executions s' = (executions s)(mref m := executions s (mref m) + k)"
    and ex2: "executions s'' = (executions s')(mref m := executions s' (mref m) + k')"
    using assms by (simp_all only: progress_def)
  have tr1: "engine_calls (trace s') = engine_calls (trace s) @ a"
    and tr2: "engine_calls (trace s'') = engine_calls (trace s') @ a'"
    using assms by (simp_all only: progress_def)
  have ec1: "eventCounter s' = eventCounter s + length e"
    and ec2: "eventCounter s'' = eventCounter s' + length e'"
    using assms by (simp_all only: progress_def)
  have lg1: "kinds (log_of s') = kinds (log_of s) @ (if ctx s = None then [] else e)"
    and lg2: "kinds (log_of s'') = kinds (log_of s') @ (if ctx s' = None then [] else e')"
    using assms by (simp_all only: progress_def)
  have cn: "(ctx s' = None) = (ctx s = None)"
    using st1 by (rule static_fields(11))
  have 1: "static s'' = static s" using st1 st2 by (rule trans [rotated])
  have 2: "executions s'' = (executions s)(mref m := executions s (mref m) + (k + k'))"
    by (simp add: ex1 ex2 add.assoc)
  have 3: "engine_calls (trace s'') = engine_calls (trace s) @ a @ a'"
    by (simp add: tr1 tr2)
  have 4: "eventCounter s'' = eventCounter s + length (e @ e')"
    by (simp add: ec1 ec2)
  have 5: "kinds (log_of s'') = kinds (log_of s) @ (if ctx s = None then [] else e @ e')"
    by (simp add: lg1 lg2 cn)
  show ?thesis
    unfolding progress_def using 1 2 3 4 5 by simp
qed

lemma executeModule_attempt_ok:
  assumes "race m (execute m (executions s (mref m))) = Inr ()"
  shows "fst (executeModule_attempt m retries s) = Some (Inr ())"
    and "progress m 1 s (snd (executeModule_attempt m retries s))
           [call_of m s, TimeoutArmed (phaseTimeout (config s))]
           [(phase m, ''module_execute_start'', DEBUG),
            (phase m, ''module_execute_complete'', DEBUG)]"
  using assms
  by (simp_all add: executeModule_attempt_def Let_def progress_def log_of_logEvent
      fullEvent_def call_of_def getContext_def ctx_logEvent createContext_def
      split: option.splits)

lemma executeModule_attempt_failed:
  assumes "race m (execute m (executions s (mref m))) = Inl err"
    and "int (retries + 1) > maxRetries (config s)"
  shows "fst (executeModule_attempt m retries s) = Some (Inl err)"
    and "progress m 1 s (snd (executeModule_attempt m retries s))
           [call_of m s, TimeoutArmed (phaseTimeout (config s))]
           [(phase m, ''module_execute_start'', DEBUG),
            (phase m, ''module_execute_failed'', ERROR)]"
  using assms
  by (simp_all add: executeModule_attempt_def Let_def progress_def log_of_logEvent
      fullEvent_def call_of_def getContext_def ctx_logEvent createContext_def
      split: option.splits)

lemma executeModule_attempt_retry:
  assumes "race m (execute m (executions s (mref m))) = Inl err"
    and "int (retries + 1) \<le> maxRetries (config s)"
  shows "fst (executeModule_attempt m retries s) = None"
    and "progress m 1 s (snd (executeModule_attempt m retries s))
           [call_of m s, TimeoutArmed (phaseTimeout (config s)), Delay (retryDelay (config s))]
           [(phase m, ''module_execute_start'', DEBUG),
            (phase m, ''module_execute_retry'', WARN)]"
  using assms
  by (simp_all add: executeModule_attempt_def Let_def progress_def log_of_logEvent
      fullEvent_def call_of_def getContext_def ctx_logEvent createContext_def
      split: option.splits)

lemma race_cases:
  "out \<noteq> Resolves \<Longrightarrow> \<exists>err. race m out = Inl err"
  "race m Resolves = Inr ()"
  by (cases out) (simp_all add: race_def)

lemma static_executeModule_attempt [simp]:
  "static (snd (executeModule_attempt m retries s)) = static s"
  by (simp add: executeModule_attempt_def Let_def split: sum.splits)

lemma static_executeModule_loop [simp]:
  "static (snd (executeModule_loop m retries s)) = static s"
proof (induction m retries s rule: executeModule_loop.induct)
  case (1 m retries s)
  show ?case
  proof (cases "int retries \<le> maxRetries (config s)")
    case False
    then show ?thesis by simp
  next
    case True
    obtain r s' where a: "executeModule_attempt m retries s = (r, s')"
      by (cases "executeModule_attempt m retries s")
    have st: "static s' = static s"
      using static_executeModule_attempt [of m retries s] a by simp
    show ?thesis
    proof (cases r)
      case None
      with 1 [OF True a [symmetric]] a True st show ?thesis by simp
    next
      case (Some x)
      with a True st show ?thesis by simp
    qed
  qed
qed

lemma progress_fields:
  assumes "progress m k s s' a e"
  shows "config s' = config s" "call_of m' s' = call_of m' s"
    "executions s' (mref m) = executions s (mref m) + k" "(ctx s' = None) = (ctx s = None)"
proof -
  have st: "static s' = static s" using assms by (simp only: progress_def)
  show "config s' = config s" using st by (rule static_fields(7))
  show "call_of m' s' = call_of m' s" using st by (rule call_of_static)
  show "(ctx s' = None) = (ctx s = None)" using st by (rule static_fields(11))
  have "executions s' = (executions s)(mref m := executions s (mref m) + k)"
    using assms by (simp only: progress_def)
  then show "executions s' (mref m) = executions s (mref m) + k" by simp
qed

lemma executeModule_loop_retries:
  assumes "\<forall>i<k. execute m (executions s (mref m) + i) \<noteq> Resolves"
    and "int (retries + k) \<le> maxRetries (config s)"
  shows "\<exists>s'. executeModule_loop m retries s = executeModule_loop m (retries + k) s' \<and>
           progress m k s s'
             (concat (replicate k [call_of m s, TimeoutArmed (phaseTimeout (config s)),
                                   Delay (retryDelay (config s))]))
             (concat (replicate k [(phase m, ''module_execute_start'', DEBUG),
                                   (phase m, ''module_execute_retry'', WARN)]))"
  using assms
proof (induction k arbitrary: retries s)
  case 0
  show ?case using progress_refl [of m s] by auto
next
  case (Suc k)
  let ?s1 = "snd (executeModule_attempt m retries s)"
  from Suc.prems(1) have "execute m (executions s (mref m)) \<noteq> Resolves"
    by (metis add.right_neutral zero_less_Suc)
  then obtain err where err: "race m (execute m (executions s (mref m))) = Inl err"
    using race_cases(1) by blast
  have le: "int (retries + 1) \<le> maxRetries (config s)" using Suc.prems(2) by simp
  have f: "fst (executeModule_attempt m retries s) = None"
    using err le by (rule executeModule_attempt_retry(1))
  have p1: "progress m 1 s ?s1
      [call_of m s, TimeoutArmed (phaseTimeout (config s)), Delay (retryDelay (config s))]
      [(phase m, ''module_execute_start'', DEBUG), (phase m, ''module_execute_retry'', WARN)]"
    using err le by (rule executeModule_attempt_retry(2))
  note pf = progress_fields [OF p1]
  have step: "executeModule_loop m retries s = executeModule_loop m (retries + 1) ?s1"
    using f le by (subst executeModule_loop.simps) (simp add: split_beta)
  have a1: "\<forall>i<k. execute m (executions ?s1 (mref m) + i) \<noteq> Resolves"
  proof (intro allI impI)
    fix i assume "i < k"
    then have "Suc i < Suc k" by simp
    with Suc.prems(1) have "execute m (executions s (mref m) + Suc i) \<noteq> Resolves" by blast
    then show "execute m (executions ?s1 (mref m) + i) \<noteq> Resolves" by (simp add: pf(3))
  qed
  have a2: "int (retries + 1 + k) \<le> maxRetries (config ?s1)"
    using Suc.prems(2) by (simp add: pf(1))
  from Suc.IH [OF a1 a2] obtain s' where
    l: "executeModule_loop m (retries + 1) ?s1 = executeModule_loop m (retries + 1 + k) s'"
    and p2: "progress m k ?s1 s'
       (concat (replicate k [call_of m ?s1, TimeoutArmed (phaseTimeout (config ?s1)),
                             Delay (retryDelay (config ?s1))]))
       (concat (replicate k [(phase m, ''module_execute_start'', DEBUG),
                             (phase m, ''module_execute_retry'', WARN)]))"
    by blast
  have "progress m (1 + k) s s'
     ([call_of m s, TimeoutArmed (phaseTimeout (config s)), Delay (retryDelay (config s))] @
      concat (replicate k [call_of m ?s1, TimeoutArmed (phaseTimeout (config ?s1)),
                           Delay (retryDelay (config ?s1))]))
     ([(phase m, ''module_execute_start'', DEBUG), (phase m, ''module_execute_retry'', WARN)] @
      concat (replicate k [(phase m, ''module_execute_start'', DEBUG),
                           (phase m, ''module_execute_retry'', WARN)]))"
    using p1 p2 by (rule progress_trans)
  then have "progress m (Suc k) s s'
     (concat (replicate (Suc k) [call_of m s, TimeoutArmed (phaseTimeout (config s)),
                                 Delay (retryDelay (config s))]))
     (concat (replicate (Suc k) [(phase m, ''module_execute_start'', DEBUG),
                                 (phase m, ''module_execute_retry'', WARN)]))"
    by (simp add: pf(1) pf(2))
  moreover have "executeModule_loop m retries s = executeModule_loop m (retries + Suc k) s'"
    using step l by simp
  ultimately show ?case by blast
qed

lemma executeModule_loop_last_failed:
  assumes "race m (execute m (executions s (mref m))) = Inl err"
    and "int retries \<le> maxRetries (config s)"
    and "int (retries + 1) > maxRetries (config s)"
  shows "\<exists>s'. executeModule_loop m retries s = (Inl err, s') \<and>
           progress m 1 s s'
             [call_of m s, TimeoutArmed (phaseTimeout (config s))]
             [(phase m, ''module_execute_start'', DEBUG),
              (phase m, ''module_execute_failed'', ERROR)]"
proof -
  let ?a = "executeModule_attempt m retries s"
  have f: "fst ?a = Some (Inl err)"
    using assms(1,3) by (rule executeModule_attempt_failed(1))
  have "executeModule_loop m retries s = (Inl err, snd ?a)"
    using f assms(2) by (subst executeModule_loop.simps) (simp add: split_beta)
  then show ?thesis
    using executeModule_attempt_failed(2) [OF assms(1,3)] by blast
qed

lemma executeModule_loop_ok:
  assumes "race m (execute m (executions s (mref m))) = Inr ()"
    and "int retries \<le> maxRetries (config s)"
  shows "\<exists>s'. executeModule_loop m retries s = (Inr (), s') \<and>
           progress m 1 s s'
             [call_of m s, TimeoutArmed (phaseTimeout (config s))]
             [(phase m, ''module_execute_start'', DEBUG),
              (phase m, ''module_execute_complete'', DEBUG)]"
proof -
  let ?a = "executeModule_attempt m retries s"
  have f: "fst ?a = Some (Inr ())"
    using assms(1) by (rule executeModule_attempt_ok(1))
  have "executeModule_loop m retries s = (Inr (), snd ?a)"
    using f assms(2) by (subst executeModule_loop.simps) (simp add: split_beta)
  then show ?thesis
    using executeModule_attempt_ok(2) [OF assms(1)] by blast
qed

lemma executeModule_always_fails:
  assumes "\<forall>n. execute m n \<noteq> Resolves" and "0 \<le> maxRetries (config s)"
  shows "\<exists>err s'. executeModule m s = (Inl err, s') \<and>
           race m (execute m (executions s (mref m) + nat (maxRetries (config s)))) = Inl err \<and>
           progress m (nat (maxRetries (config s)) + 1) s s'
             (concat (replicate (nat (maxRetries (config s)))
                        [call_of m s, TimeoutArmed (phaseTimeout (config s)),
                         Delay (retryDelay (config s))]) @
              [call_of m s, TimeoutArmed (phaseTimeout (config s))])
             (concat (replicate (nat (maxRetries (config s)))
                        [(phase m, ''module_execute_start'', DEBUG),
                         (phase m, ''module_execute_retry'', WARN)]) @
              [(phase m, ''module_execute_start'', DEBUG),
               (phase m, ''module_execute_failed'', ERROR)])"
proof -
  let ?N = "nat (maxRetries (config s))"
  have a1: "\<forall>i<?N. execute m (executions s (mref m) + i) \<noteq> Resolves"
    using assms(1) by simp
  have a2: "int (0 + ?N) \<le> maxRetries (config s)" using assms(2) by simp
  from executeModule_loop_retries [OF a1 a2] obtain s1 where
    l: "executeModule_loop m 0 s = executeModule_loop m (0 + ?N) s1"
    and p1: "progress m ?N s s1
       (concat (replicate ?N [call_of m s, TimeoutArmed (phaseTimeout (config s)),
                              Delay (retryDelay (config s))]))
       (concat (replicate ?N [(phase m, ''module_execute_start'', DEBUG),
                              (phase m, ''module_execute_retry'', WARN)]))"
    by blast
  note pf = progress_fields [OF p1]
  obtain err where err: "race m (execute m (executions s1 (mref m))) = Inl err"
    using race_cases(1) assms(1) by blast
  have b1: "int ?N \<le> maxRetries (config s1)" using assms(2) by (simp add: pf(1))
  have b2: "int (?N + 1) > maxRetries (config s1)" using assms(2) by (simp add: pf(1))
  from executeModule_loop_last_failed [OF err b1 b2] obtain s' where
    r: "executeModule_loop m ?N s1 = (Inl err, s')"
    and p2: "progress m 1 s1 s'
       [call_of m s1, TimeoutArmed (phaseTimeout (config s1))]
       [(phase m, ''module_execute_start'', DEBUG), (phase m, ''module_execute_failed'', ERROR)]"
    by blast
  have p: "progress m (?N + 1) s s'
       (concat (replicate ?N [call_of m s, TimeoutArmed (phaseTimeout (config s)),
                              Delay (retryDelay (config s))]) @
        [call_of m s1, TimeoutArmed (phaseTimeout (config s1))])
       (concat (replicate ?N [(phase m, ''module_execute_start'', DEBUG),
                              (phase m, ''module_execute_retry'', WARN)]) @
        [(phase m, ''module_execute_start'', DEBUG), (phase m, ''module_execute_failed'', ERROR)])"
    using p1 p2 by (rule progress_trans)
  have "executeModule m s = (Inl err, s')"
    using l r by (simp add: executeModule_def)
  moreover have "race m (execute m (executions s (mref m) + ?N)) = Inl err"
    using err by (simp add: pf(3))
  ultimately show ?thesis using p by (auto simp only: pf(1) pf(2))
qed

lemma executeModule_succeeds_after:
  assumes "\<forall>i<k. execute m (executions s (mref m) + i) \<noteq> Resolves"
    and "execute m (executions s (mref m) + k) = Resolves"
    and "int k \<le> maxRetries (config s)"
  shows "\<exists>s'. executeModule m s = (Inr (), s') \<and>
           progress m (k + 1) s s'
             (concat (replicate k
                        [call_of m s, TimeoutArmed (phaseTimeout (config s)),
                         Delay (retryDelay (config s))]) @
              [call_of m s, TimeoutArmed (phaseTimeout (config s))])
             (concat (replicate k
                        [(phase m, ''module_execute_start'', DEBUG),
                         (phase m, ''module_execute_retry'', WARN)]) @
              [(phase m, ''module_execute_start'', DEBUG),
               (phase m, ''module_execute_complete'', DEBUG)])"
proof -
  have a2: "int (0 + k) \<le> maxRetries (config s)" using assms(3) by simp
  from executeModule_loop_retries [OF assms(1) a2] obtain s1 where
    l: "executeModule_loop m 0 s = executeModule_loop m (0 + k) s1"
    and p1: "progress m k s s1
       (concat (replicate k [call_of m s, TimeoutArmed (phaseTimeout (config s)),
                              Delay (retryDelay (config s))]))
       (concat (replicate k [(phase m, ''module_execute_start'', DEBUG),
                              (phase m, ''module_execute_retry'', WARN)]))"
    by blast
  note pf = progress_fields [OF p1]
  have ok: "race m (execute m (executions s1 (mref m))) = Inr ()"
    using assms(2) by (simp add: pf(3) race_cases(2))
  have b1: "int k \<le> maxRetries (config s1)" using assms(3) by (simp add: pf(1))
  from executeModule_loop_ok [OF ok b1] obtain s' where
    r: "executeModule_loop m k s1 = (Inr (), s')"
    and p2: "progress m 1 s1 s'
       [call_of m s1, TimeoutArmed (phaseTimeout (config s1))]
       [(phase m, ''module_execute_start'', DEBUG), (phase m, ''module_execute_complete'', DEBUG)]"
    by blast
  have p: "progress m (k + 1) s s'
       (concat (replicate k [call_of m s, TimeoutArmed (phaseTimeout (config s)),
                              Delay (retryDelay (config s))]) @
        [call_of m s1, TimeoutArmed (phaseTimeout (config s1))])
       (concat (replicate k [(phase m, ''module_execute_start'', DEBUG),
                              (phase m, ''module_execute_retry'', WARN)]) @
        [(phase m, ''module_execute_start'', DEBUG), (phase m, ''module_execute_complete'', DEBUG)])"
    using p1 p2 by (rule progress_trans)
  have "executeModule m s = (Inr (), s')"
    using l r by (simp add: executeModule_def)
  then show ?thesis using p by (auto simp only: pf(1) pf(2))
qed

lemma in_observers_values_on [simp]:
  "in_observers_values (CHR ''o'' # CHR ''n'' # x) s = False"
  by (simp add: in_observers_values_def set_iterator_properties_def)

lemma static_executePhaseModules_loop [simp]:
  "static (snd (executePhaseModules_loop ms s)) = static s"
proof (induction ms arbitrary: s)
  case Nil
  show ?case by simp
next
  case (Cons m ms)
  obtain r s' where e: "executeModule m s = (r, s')" by (cases "executeModule m s")
  have "static s' = static s"
    using static_executeModule_loop [of m 0 s] e by (simp add: executeModule_def)
  with Cons [of s'] e show ?case by (cases r) simp_all
qed

lemma executePhaseModules_loop_append:
  "executePhaseModules_loop (ms1 @ ms2) s =
     (case executePhaseModules_loop ms1 s of
        (Inl err, s') \<Rightarrow> (Inl err, s')
      | (Inr u, s') \<Rightarrow> executePhaseModules_loop ms2 s')"
  by (induction ms1 arbitrary: s) (auto split: prod.splits sum.splits)

lemma ctx_phase_entry: "ctx (phase_entry p s) \<noteq> None"
  by (simp add: phase_entry_def Let_def ctx_logEvent)

lemma getContext_Some: "ctx s \<noteq> None \<Longrightarrow> snd (getContext s) = s"
  by (auto simp: getContext_def)

lemma engine_calls_idem [simp]: "engine_calls (engine_calls t) = engine_calls t"
  by (simp add: engine_calls_def)

lemma engine_calls_observer_error_calls [simp]:
  "engine_calls (observer_error_calls obs err p) = observer_error_calls obs err p"
  by (induction obs) (auto split: option.splits callback_result.splits)

lemma static_handlePhaseError:
  "config (handlePhaseError err p s) = config s"
  "state (handlePhaseError err p s) = state s"
  "stats (handlePhaseError err p s) = stats s"
  "modules (handlePhaseError err p s) = modules s"
  "observers (handlePhaseError err p s) = observers s"
  "listeners (handlePhaseError err p s) = listeners s"
  "currentPhase (handlePhaseError err p s) = currentPhase s"
  "executions (handlePhaseError err p s) = executions s"
  "engine_calls (trace (handlePhaseError err p s)) =
     engine_calls (trace s) @ observer_error_calls (observers s) err p"
  by (simp_all add: handlePhaseError_eq Let_def)

lemma getContext_ctx_update: "(snd (getContext s))\<lparr>ctx := x\<rparr> = s\<lparr>ctx := x\<rparr>"
  by (simp add: getContext_def split: option.splits)

lemma executePhase_eq:
  "executePhase p s =
     (case executePhaseModules_loop (phase_modules p s) (phase_entry p s) of
        (Inr u, t) \<Rightarrow>
          (Inr (),
           executePhase_finally p SUCCESS
             (logEvent
                \<lparr>pe_phase = Some p, pe_type = Some ''phase_complete'', pe_level = Some INFO,
                 pe_data = None\<rparr> t))
      | (Inl err, t) \<Rightarrow>
          (if continueOnError (config s) then Inr () else Inl err,
           executePhase_finally p FAILURE (handlePhaseError err p t)))"
proof -
  let ?e = "phase_entry p s"
  let ?ms = "phase_modules p s"
  define s1 where "s1 = s\<lparr>currentPhase := Some p\<rparr>"
  define c where "c = fst (getContext s1)"
  define s3 where "s3 = s1\<lparr>ctx := Some (c\<lparr>ctx_previousPhase := Some (ctx_currentPhase c),
                                          ctx_currentPhase := p\<rparr>)\<rparr>"
  have e_def: "?e = logEvent
           \<lparr>pe_phase = Some p, pe_type = Some ''phase_start'', pe_level = Some INFO,
            pe_data = None\<rparr> s3"
    by (simp add: phase_entry_def Let_def s3_def c_def s1_def)
  have m: "modules ?e p = modules s p"
    by (simp add: e_def s3_def s1_def)
  have g: "snd (getContext ?e) = ?e"
    using ctx_phase_entry by (rule getContext_Some)
  have pm: "executePhaseModules p ?e = executePhaseModules_loop ?ms ?e"
    by (simp add: executePhaseModules_def Let_def m g phase_modules_def)
  have "config (snd (executePhaseModules_loop ?ms ?e)) = config ?e"
    by (rule static_fields(7)) simp
  then have cfg: "config (snd (executePhaseModules_loop ?ms ?e)) = config s"
    by (simp add: e_def s3_def s1_def)
  obtain r t where rt: "executePhaseModules_loop ?ms ?e = (r, t)"
    by (cases "executePhaseModules_loop ?ms ?e")
  have ct: "config t = config s" using cfg rt by simp
  have e3: "executePhase_try p s3 =
            (case r of
               Inl err \<Rightarrow> (Inl err, t)
             | Inr u \<Rightarrow>
                 (Inr (),
                  logEvent
                    \<lparr>pe_phase = Some p, pe_type = Some ''phase_complete'',
                     pe_level = Some INFO, pe_data = None\<rparr> t))"
    using pm rt
    by (simp add: executePhase_try_def Let_def e_def [symmetric] split: sum.splits)
  have top: "executePhase p s =
       (case executePhase_try p s3 of
           (Inr u, s4) \<Rightarrow> (Inr (), executePhase_finally p SUCCESS s4)
         | (Inl err, s4) \<Rightarrow>
             (let s5 = handlePhaseError err p s4
              in if \<not> continueOnError (config s5)
                 then (Inl err, executePhase_finally p FAILURE s5)
                 else (Inr (), executePhase_finally p FAILURE s5)))"
    unfolding executePhase_def Let_def s3_def c_def s1_def
    by (simp only: split_beta getContext_ctx_update)
  show ?thesis
    by (cases r) (simp_all add: top e3 rt ct static_handlePhaseError Let_def)
qed

lemma new_LifecycleEngine_parts [simp]:
  "config (new_LifecycleEngine cfg) = cfg"
  "state (new_LifecycleEngine cfg) = UNINITIALIZED"
  "executions (new_LifecycleEngine cfg) = (\<lambda>r. 0)"
  "modules (new_LifecycleEngine cfg) = Map.empty"
  "ctx (new_LifecycleEngine cfg) = None"
  "currentPhase (new_LifecycleEngine cfg) = None"
  "observers (new_LifecycleEngine cfg) = []"
  "listeners (new_LifecycleEngine cfg) = []"
  "eventCounter (new_LifecycleEngine cfg) = 1"
  "engine_calls (trace (new_LifecycleEngine cfg)) = []"
  by (simp_all add: new_LifecycleEngine_def ctx_logEvent)

lemma calls_call_of [simp]:
  "exec_calls (call_of m s # xs) = mref m # exec_calls xs"
  "engine_calls (call_of m s # xs) = call_of m s # engine_calls xs"
  by (simp_all add: call_of_def Let_def)

lemma module_actions_static: "static s' = static s \<Longrightarrow> module_actions m s' = module_actions m s"
  using call_of_static [of s' s m] static_fields(7) [of s' s]
  by (simp add: module_actions_def)

lemma progress_calls:
  "progress m k s s' a e \<Longrightarrow> engine_calls (trace s') = engine_calls (trace s) @ a"
  by (simp only: progress_def)

lemma executeModule_attempt_calls:
  "engine_calls (trace (snd (executeModule_attempt m retries s))) =
     engine_calls (trace s) @ [call_of m s, TimeoutArmed (phaseTimeout (config s))] @
     (if fst (executeModule_attempt m retries s) = None
      then [Delay (retryDelay (config s))] else [])"
proof (cases "race m (execute m (executions s (mref m)))")
  case (Inr u)
  then have r: "race m (execute m (executions s (mref m))) = Inr ()" by simp
  show ?thesis
    using executeModule_attempt_ok(1) [OF r, of retries]
      progress_calls [OF executeModule_attempt_ok(2) [OF r, of retries]]
    by simp
next
  case (Inl err)
  show ?thesis
  proof (cases "int (retries + 1) > maxRetries (config s)")
    case True
    show ?thesis
      using executeModule_attempt_failed(1) [OF Inl True]
        progress_calls [OF executeModule_attempt_failed(2) [OF Inl True]]
      by simp
  next
    case False
    then have le: "int (retries + 1) \<le> maxRetries (config s)" by simp
    show ?thesis
      using executeModule_attempt_retry(1) [OF Inl le]
        progress_calls [OF executeModule_attempt_retry(2) [OF Inl le]]
      by simp
  qed
qed

lemma executeModule_loop_calls:
  "\<exists>xs. engine_calls (trace (snd (executeModule_loop m retries s))) = engine_calls (trace s) @ xs \<and>
        set xs \<subseteq> module_actions m s"
proof (induction m retries s rule: executeModule_loop.induct)
  case (1 m retries s)
  show ?case
  proof (cases "int retries \<le> maxRetries (config s)")
    case False
    then show ?thesis by simp
  next
    case True
    obtain r s' where a: "executeModule_attempt m retries s = (r, s')"
      by (cases "executeModule_attempt m retries s")
    have st: "static s' = static s"
      using static_executeModule_attempt [of m retries s] a by simp
    have tr: "engine_calls (trace s') =
        engine_calls (trace s) @ [call_of m s, TimeoutArmed (phaseTimeout (config s))] @
        (if r = None then [Delay (retryDelay (config s))] else [])"
      using executeModule_attempt_calls [of m retries s] a by simp
    show ?thesis
    proof (cases r)
      case None
      from 1 [OF True a [symmetric] None] obtain xs where
        xs: "engine_calls (trace (snd (executeModule_loop m (retries + 1) s'))) =
               engine_calls (trace s') @ xs" "set xs \<subseteq> module_actions m s'"
        by blast
      have l: "executeModule_loop m retries s = executeModule_loop m (retries + 1) s'"
        using True a None
        by (subst executeModule_loop.simps) (simp del: executeModule_loop.simps)
      have "engine_calls (trace (snd (executeModule_loop m retries s))) =
              engine_calls (trace s) @
              ([call_of m s, TimeoutArmed (phaseTimeout (config s)),
                Delay (retryDelay (config s))] @ xs)"
        using xs(1) tr None by (simp add: l del: executeModule_loop.simps)
      moreover have "set ([call_of m s, TimeoutArmed (phaseTimeout (config s)),
                Delay (retryDelay (config s))] @ xs) \<subseteq> module_actions m s"
      proof -
        have x2: "set xs \<subseteq> module_actions m s"
          using xs(2) by (simp only: module_actions_static [OF st])
        have "set [call_of m s, TimeoutArmed (phaseTimeout (config s)),
                Delay (retryDelay (config s))] \<subseteq> module_actions m s"
          by (simp add: module_actions_def)
        with x2 show ?thesis by simp
      qed
      ultimately show ?thesis by blast
    next
      case (Some x)
      have l: "executeModule_loop m retries s = (x, s')"
        using True a Some
        by (subst executeModule_loop.simps) (simp del: executeModule_loop.simps)
      have "engine_calls (trace (snd (executeModule_loop m retries s))) =
              engine_calls (trace s) @ [call_of m s, TimeoutArmed (phaseTimeout (config s))]"
        using tr Some by (simp add: l del: executeModule_loop.simps)
      moreover have "set [call_of m s, TimeoutArmed (phaseTimeout (config s))]
                       \<subseteq> module_actions m s"
        by (simp add: module_actions_def)
      ultimately show ?thesis by blast
    qed
  qed
qed

lemma executePhaseModules_loop_calls:
  "\<exists>xs. engine_calls (trace (snd (executePhaseModules_loop ms s))) = engine_calls (trace s) @ xs \<and>
        set xs \<subseteq> (\<Union>m\<in>set ms. module_actions m s)"
proof (induction ms arbitrary: s)
  case Nil
  show ?case by simp
next
  case (Cons m ms)
  obtain r s' where e: "executeModule m s = (r, s')" by (cases "executeModule m s")
  have st: "static s' = static s"
    using static_executeModule_loop [of m 0 s] e by (simp add: executeModule_def)
  from executeModule_loop_calls [of m 0 s] e obtain xs where
    xs: "engine_calls (trace s') = engine_calls (trace s) @ xs" "set xs \<subseteq> module_actions m s"
    by (auto simp: executeModule_def)
  show ?case
  proof (cases r)
    case (Inl err)
    with e xs show ?thesis by auto
  next
    case (Inr u)
    from Cons [of s'] obtain ys where
      ys: "engine_calls (trace (snd (executePhaseModules_loop ms s'))) =
             engine_calls (trace s') @ ys" "set ys \<subseteq> (\<Union>m\<in>set ms. module_actions m s')"
      by blast
    have "engine_calls (trace (snd (executePhaseModules_loop (m # ms) s))) =
            engine_calls (trace s) @ (xs @ ys)"
      using e Inr xs(1) ys(1) by simp
    moreover have "set (xs @ ys) \<subseteq> (\<Union>m\<in>set (m # ms). module_actions m s)"
      using xs(2) ys(2) module_actions_static [OF st] by auto
    ultimately show ?thesis by blast
  qed
qed

lemma grows_refl [simp]: "grows A s s"
  by (simp add: grows_def)

lemma grows_trans: "grows A s s' \<Longrightarrow> grows A s' s'' \<Longrightarrow> grows A s s''"
  by (auto simp: grows_def)

lemma grows_eq: "engine_calls (trace s') = engine_calls (trace s) \<Longrightarrow> grows A s s'"
  by (simp add: grows_def)

lemma grows_cong:
  "engine_calls (trace t') = engine_calls (trace s') \<Longrightarrow> grows A s s' \<Longrightarrow> grows A s t'"
  by (simp add: grows_def)


lemma grows_logEvent [simp]: "grows A s (logEvent e s)"
  by (simp add: grows_def)

lemma grows_filter:
  assumes "grows A s s'" and "\<And>a. P a \<Longrightarrow> \<not> A a \<and> \<not> is_log_action a"
  shows "filter P (trace s') = filter P (trace s)"
proof -
  have e: "filter P (engine_calls t) = filter P t" for t
    using assms(2) by (induction t) (auto simp: engine_calls_def)
  from assms(1) obtain xs where
    xs: "engine_calls (trace s') = engine_calls (trace s) @ xs" "list_all A xs"
    by (auto simp: grows_def)
  have "filter P xs = []" using xs(2) assms(2) by (auto simp: list_all_iff filter_empty_conv)
  then have "filter P (engine_calls (trace s')) = filter P (engine_calls (trace s))"
    by (simp add: xs(1))
  then show ?thesis by (simp only: e)
qed

lemma module_actions_run: "a \<in> module_actions m s \<Longrightarrow> run_action a"
  by (auto simp: module_actions_def run_action_def call_of_def Let_def)

lemma grows_executePhaseModules_loop: "grows run_action s (snd (executePhaseModules_loop ms s))"
proof -
  from executePhaseModules_loop_calls [of ms s] obtain xs where
    xs: "engine_calls (trace (snd (executePhaseModules_loop ms s))) = engine_calls (trace s) @ xs"
      "set xs \<subseteq> (\<Union>m\<in>set ms. module_actions m s)" by blast
  have "list_all run_action xs"
    using xs(2) module_actions_run by (fastforce simp: list_all_iff)
  with xs(1) show ?thesis by (auto simp: grows_def)
qed

lemma run_action_observer_error_calls: "list_all run_action (observer_error_calls obs err p)"
  by (induction obs) (auto simp: run_action_def split: option.splits callback_result.splits)

lemma grows_handlePhaseError: "grows run_action s (handlePhaseError err p s)"
  using run_action_observer_error_calls [of "observers s" err p]
  by (auto simp: grows_def static_handlePhaseError)

lemma phase_entry_parts [simp]:
  "state (phase_entry p s) = state s"
  "config (phase_entry p s) = config s"
  "modules (phase_entry p s) = modules s"
  "listeners (phase_entry p s) = listeners s"
  "observers (phase_entry p s) = observers s"
  "stats (phase_entry p s) = stats s"
  "executions (phase_entry p s) = executions s"
  "currentPhase (phase_entry p s) = Some p"
  "eventCounter (phase_entry p s) = eventCounter s + 1"
  "engine_calls (trace (phase_entry p s)) = engine_calls (trace s)"
  by (simp_all add: phase_entry_def Let_def)

lemma ctx_phase_entry_eq:
  "ctx (phase_entry p s) =
     Some \<lparr>ctx_currentPhase = p,
           ctx_previousPhase = Some (case ctx s of Some c \<Rightarrow> ctx_currentPhase c | None \<Rightarrow> p),
           ctx_events = log_of s @ [fullEvent
              \<lparr>pe_phase = Some p, pe_type = Some ''phase_start'', pe_level = Some INFO,
               pe_data = None\<rparr> (eventCounter s + 1) (Some p)],
           ctx_errors = errors_of s\<rparr>"
  by (cases "ctx s")
    (simp_all add: phase_entry_def Let_def ctx_logEvent getContext_def createContext_def
      log_of_def errors_of_def)

lemma call_of_phase_entry:
  "call_of m (phase_entry p s) =
     ExecuteCall (mref m) p (Some (case ctx s of Some c \<Rightarrow> ctx_currentPhase c | None \<Rightarrow> p))"
  by (simp add: call_of_def Let_def getContext_def ctx_phase_entry_eq)

lemma executePhase_finally_parts [simp]:
  "state (executePhase_finally p r s) = state s"
  "config (executePhase_finally p r s) = config s"
  "modules (executePhase_finally p r s) = modules s"
  "listeners (executePhase_finally p r s) = listeners s"
  "observers (executePhase_finally p r s) = observers s"
  "executions (executePhase_finally p r s) = executions s"
  "currentPhase (executePhase_finally p r s) = currentPhase s"
  "eventCounter (executePhase_finally p r s) = eventCounter s"
  "ctx (executePhase_finally p r s) = ctx s"
  "trace (executePhase_finally p r s) = trace s"
  "totalExecutions (stats (executePhase_finally p r s)) = totalExecutions (stats s)"
  "successfulExecutions (stats (executePhase_finally p r s)) = successfulExecutions (stats s)"
  "failedExecutions (stats (executePhase_finally p r s)) = failedExecutions (stats s)"
  "q \<noteq> p \<Longrightarrow> phaseStats (stats (executePhase_finally p r s)) q = phaseStats (stats s) q"
  "executionCount (phaseStats (stats (executePhase_finally p r s)) p) =
     executionCount (phaseStats (stats s) p) + 1"
  "failureCount (phaseStats (stats (executePhase_finally p r s)) p) =
     failureCount (phaseStats (stats s) p) + (if r = SUCCESS then 0 else 1)"
  "successCount (phaseStats (stats (executePhase_finally p r s)) p) =
     successCount (phaseStats (stats s) p) + (if r = SUCCESS then 1 else 0)"
  by (simp_all add: executePhase_finally_def Let_def)

lemma log_of_executePhase_finally [simp]: "log_of (executePhase_finally p r s) = log_of s"
  by (simp add: log_of_def)

lemma errors_of_executePhase_finally [simp]: "errors_of (executePhase_finally p r s) = errors_of s"
  by (simp add: errors_of_def)

lemma errors_of_updates [simp]:
  "errors_of (s\<lparr>trace := t\<rparr>) = errors_of s"
  "errors_of (s\<lparr>executions := x\<rparr>) = errors_of s"
  "errors_of (s\<lparr>state := st\<rparr>) = errors_of s"
  "errors_of (s\<lparr>stats := sa\<rparr>) = errors_of s"
  "errors_of (logEvent e s) = errors_of s"
  by (simp_all add: errors_of_def ctx_logEvent split: option.splits)

lemma errors_of_static: "static s' = static s \<Longrightarrow> errors_of s' = errors_of s"
  using static_fields(10) [of s' s]
  by (cases "ctx s"; cases "ctx s'") (simp_all add: errors_of_def)

lemma handlePhaseError_ctx:
  "errors_of (handlePhaseError err p s) = errors_of s @ (if ctx s = None then [] else [err])"
  "log_of (handlePhaseError err p s) =
     log_of s @
     (if ctx s = None then []
      else [fullEvent \<lparr>pe_phase = Some p, pe_type = Some ''phase_error'', pe_level = Some ERROR,
                       pe_data = Some (ErrorInfo err)\<rparr> (eventCounter s + 1) (currentPhase s)])"
  "(ctx (handlePhaseError err p s) = None) = (ctx s = None)"
  by (cases "ctx s"; simp add: handlePhaseError_eq Let_def errors_of_def log_of_def ctx_logEvent)+

lemma exec_calls_attempts:
  "exec_calls (concat (replicate n [call_of m s, TimeoutArmed t, Delay d])) = replicate n (mref m)"
  by (induction n) simp_all

lemma static_phase_run:
  "executePhaseModules_loop ms (phase_entry p s) = (r, t) \<Longrightarrow> static t = static (phase_entry p s)"
  using static_executePhaseModules_loop [of ms "phase_entry p s"] by simp

lemma phase_run_parts:
  assumes "executePhaseModules_loop ms (phase_entry p s) = (r, t)"
  shows "state t = state s" "config t = config s" "modules t = modules s"
    "listeners t = listeners s" "observers t = observers s" "stats t = stats s"
    "currentPhase t = Some p" "ctx t \<noteq> None" "errors_of t = errors_of s"
    "grows run_action s t"
proof -
  note st = static_phase_run [OF assms]
  note f = static_fields [OF st]
  show "state t = state s" using f(1) by simp
  show "config t = config s" using f(7) by simp
  show "modules t = modules s" using f(3) by simp
  show "listeners t = listeners s" using f(4) by simp
  show "observers t = observers s" using f(5) by simp
  show "stats t = stats s" using f(6) by simp
  show "currentPhase t = Some p" using f(2) by simp
  show "ctx t \<noteq> None" using f(11) ctx_phase_entry by simp
  have "errors_of t = errors_of (phase_entry p s)" using st by (rule errors_of_static)
  then show "errors_of t = errors_of s" by (simp add: errors_of_def ctx_phase_entry_eq)
  have "grows run_action (phase_entry p s) t"
    using grows_executePhaseModules_loop [of "phase_entry p s" ms] assms by simp
  then show "grows run_action s t" by (simp add: grows_def)
qed

lemma executePhase_parts:
  "state (snd (executePhase p s)) = state s"
  "config (snd (executePhase p s)) = config s"
  "modules (snd (executePhase p s)) = modules s"
  "listeners (snd (executePhase p s)) = listeners s"
  "observers (snd (executePhase p s)) = observers s"
  "currentPhase (snd (executePhase p s)) = Some p"
  "ctx (snd (executePhase p s)) \<noteq> None"
  "totalExecutions (stats (snd (executePhase p s))) = totalExecutions (stats s)"
  "successfulExecutions (stats (snd (executePhase p s))) = successfulExecutions (stats s)"
  "failedExecutions (stats (snd (executePhase p s))) = failedExecutions (stats s)"
  "q \<noteq> p \<Longrightarrow> phaseStats (stats (snd (executePhase p s))) q = phaseStats (stats s) q"
  "executionCount (phaseStats (stats (snd (executePhase p s))) p) =
     executionCount (phaseStats (stats s) p) + 1"
  "grows run_action s (snd (executePhase p s))"
proof -
  obtain r t where rt: "executePhaseModules_loop (phase_modules p s) (phase_entry p s) = (r, t)"
    by (cases "executePhaseModules_loop (phase_modules p s) (phase_entry p s)")
  note f = phase_run_parts [OF rt]
  have e: "snd (executePhase p s) =
      (case r of
         Inr u \<Rightarrow> executePhase_finally p SUCCESS
             (logEvent
                \<lparr>pe_phase = Some p, pe_type = Some ''phase_complete'', pe_level = Some INFO,
                 pe_data = None\<rparr> t)
       | Inl err \<Rightarrow> executePhase_finally p FAILURE (handlePhaseError err p t))"
    by (simp add: executePhase_eq rt split: sum.splits)
  show "state (snd (executePhase p s)) = state s"
    by (cases r) (simp_all add: e f static_handlePhaseError)
  show "config (snd (executePhase p s)) = config s"
    by (cases r) (simp_all add: e f static_handlePhaseError)
  show "modules (snd (executePhase p s)) = modules s"
    by (cases r) (simp_all add: e f static_handlePhaseError)
  show "listeners (snd (executePhase p s)) = listeners s"
    by (cases r) (simp_all add: e f static_handlePhaseError)
  show "observers (snd (executePhase p s)) = observers s"
    by (cases r) (simp_all add: e f static_handlePhaseError)
  show "currentPhase (snd (executePhase p s)) = Some p"
    by (cases r) (simp_all add: e f static_handlePhaseError)
  show "ctx (snd (executePhase p s)) \<noteq> None"
    using f(8) by (cases r) (simp_all add: e handlePhaseError_ctx ctx_logEvent)
  show "totalExecutions (stats (snd (executePhase p s))) = totalExecutions (stats s)"
    by (cases r) (simp_all add: e f static_handlePhaseError)
  show "successfulExecutions (stats (snd (executePhase p s))) = successfulExecutions (stats s)"
    by (cases r) (simp_all add: e f static_handlePhaseError)
  show "failedExecutions (stats (snd (executePhase p s))) = failedExecutions (stats s)"
    by (cases r) (simp_all add: e f static_handlePhaseError)
  show "q \<noteq> p \<Longrightarrow> phaseStats (stats (snd (executePhase p s))) q = phaseStats (stats s) q"
    by (cases r) (simp_all add: e f static_handlePhaseError)
  show "executionCount (phaseStats (stats (snd (executePhase p s))) p) =
     executionCount (phaseStats (stats s) p) + 1"
    by (cases r) (simp_all add: e f static_handlePhaseError)
  show "grows run_action s (snd (executePhase p s))"
  proof (cases r)
    case (Inl err)
    have "grows run_action t (handlePhaseError err p t)" by (rule grows_handlePhaseError)
    with f(10) have "grows run_action s (handlePhaseError err p t)" by (rule grows_trans)
    then show ?thesis by (simp add: e Inl grows_def)
  next
    case (Inr u)
    with f(10) show ?thesis by (simp add: e grows_def)
  qed
qed

lemma executePhase_failure:
  assumes "phase_modules p s = ms1 @ m # ms2"
    and "executePhaseModules_loop ms1 (phase_entry p s) = (Inr (), t1)"
    and "\<forall>n. execute m n \<noteq> Resolves"
    and "0 \<le> maxRetries (config s)"
  shows "\<exists>err t2.
           executePhase p s =
             (if continueOnError (config s) then Inr () else Inl err,
              executePhase_finally p FAILURE (handlePhaseError err p t2)) \<and>
           race m (execute m (executions t1 (mref m) + nat (maxRetries (config s)))) = Inl err \<and>
           progress m (nat (maxRetries (config s)) + 1) t1 t2
             (concat (replicate (nat (maxRetries (config s)))
                        [call_of m t1, TimeoutArmed (phaseTimeout (config s)),
                         Delay (retryDelay (config s))]) @
              [call_of m t1, TimeoutArmed (phaseTimeout (config s))])
             (concat (replicate (nat (maxRetries (config s)))
                        [(phase m, ''module_execute_start'', DEBUG),
                         (phase m, ''module_execute_retry'', WARN)]) @
              [(phase m, ''module_execute_start'', DEBUG),
               (phase m, ''module_execute_failed'', ERROR)])"
proof -
  note f = phase_run_parts [OF assms(2)]
  have m0: "0 \<le> maxRetries (config t1)" using assms(4) by (simp add: f(2))
  from executeModule_always_fails [OF assms(3) m0] obtain err t2 where
    e: "executeModule m t1 = (Inl err, t2)"
    and r: "race m (execute m (executions t1 (mref m) + nat (maxRetries (config t1)))) = Inl err"
    and p: "progress m (nat (maxRetries (config t1)) + 1) t1 t2
             (concat (replicate (nat (maxRetries (config t1)))
                        [call_of m t1, TimeoutArmed (phaseTimeout (config t1)),
                         Delay (retryDelay (config t1))]) @
              [call_of m t1, TimeoutArmed (phaseTimeout (config t1))])
             (concat (replicate (nat (maxRetries (config t1)))
                        [(phase m, ''module_execute_start'', DEBUG),
                         (phase m, ''module_execute_retry'', WARN)]) @
              [(phase m, ''module_execute_start'', DEBUG),
               (phase m, ''module_execute_failed'', ERROR)])"
    by blast
  have "executePhaseModules_loop (phase_modules p s) (phase_entry p s) = (Inl err, t2)"
    using assms(2) e by (simp add: assms(1) executePhaseModules_loop_append)
  then have "executePhase p s =
             (if continueOnError (config s) then Inr () else Inl err,
              executePhase_finally p FAILURE (handlePhaseError err p t2))"
    by (simp add: executePhase_eq)
  with r p show ?thesis by (auto simp only: f(2))
qed

lemma exec_calls_observer_error_calls [simp]: "exec_calls (observer_error_calls obs err p) = []"
  by (induction obs) (auto split: option.splits callback_result.splits)

lemma registerModule_parts:
  assumes "initialize_is_function m"
  shows "fst (registerModule p m s) = Inr ()"
    "modules (snd (registerModule p m s)) = (modules s)(p \<mapsto> phase_modules p s @ [m])"
    "phase_modules q (snd (registerModule p m s)) =
       (if q = p then phase_modules p s @ [m] else phase_modules q s)"
    "state (snd (registerModule p m s)) = state s"
    "config (snd (registerModule p m s)) = config s"
    "(ctx (snd (registerModule p m s)) = None) = (ctx s = None)"
    "currentPhase (snd (registerModule p m s)) = currentPhase s"
    "observers (snd (registerModule p m s)) = observers s"
    "listeners (snd (registerModule p m s)) = listeners s"
    "executions (snd (registerModule p m s)) = executions s"
    "stats (snd (registerModule p m s)) = stats s"
    "engine_calls (trace (snd (registerModule p m s))) = engine_calls (trace s)"
  using assms
  by (simp_all add: registerModule_def Let_def phase_modules_def ctx_logEvent
      split: option.splits)

lemma stop_parts [simp]:
  "state (stop s) = STOPPED"
  "modules (stop s) = modules s"
  "phase_modules q (stop s) = phase_modules q s"
  "config (stop s) = config s"
  "(ctx (stop s) = None) = (ctx s = None)"
  "currentPhase (stop s) = currentPhase s"
  "observers (stop s) = observers s"
  "listeners (stop s) = listeners s"
  "executions (stop s) = executions s"
  "stats (stop s) = stats s"
  "engine_calls (trace (stop s)) = engine_calls (trace s)"
  by (simp_all add: stop_def ctx_logEvent phase_modules_def)

lemma executePhase_continue:
  assumes "continueOnError (config s)"
    and "phase_modules p s = ms1 @ m # ms2"
    and "executePhaseModules_loop ms1 (phase_entry p s) = (Inr (), t1)"
    and "\<forall>n. execute m n \<noteq> Resolves"
    and "0 \<le> maxRetries (config s)"
  shows "\<exists>err s'. executePhase p s = (Inr (), s') \<and>
      race m (execute m (executions t1 (mref m) + nat (maxRetries (config s)))) = Inl err \<and>
      errors_of s' = errors_of s @ [err] \<and>
      kinds (log_of s') =
        kinds (log_of t1) @
        concat (replicate (nat (maxRetries (config s)))
                  [(phase m, ''module_execute_start'', DEBUG),
                   (phase m, ''module_execute_retry'', WARN)]) @
        [(phase m, ''module_execute_start'', DEBUG),
         (phase m, ''module_execute_failed'', ERROR),
         (p, ''phase_error'', ERROR)] \<and>
      engine_calls (trace s') =
        engine_calls (trace t1) @
        concat (replicate (nat (maxRetries (config s)))
                  [call_of m (phase_entry p s), TimeoutArmed (phaseTimeout (config s)),
                   Delay (retryDelay (config s))]) @
        [call_of m (phase_entry p s), TimeoutArmed (phaseTimeout (config s))] @
        observer_error_calls (observers s) err p \<and>
      exec_calls (trace s') =
        exec_calls (trace t1) @ replicate (nat (maxRetries (config s)) + 1) (mref m) \<and>
      failureCount (phaseStats (stats s') p) = failureCount (phaseStats (stats s) p) + 1 \<and>
      (\<forall>ps. start_phases (p # ps) s = start_phases ps s')"
proof -
  let ?N = "nat (maxRetries (config s))"
  let ?acts = "concat (replicate ?N
                        [call_of m t1, TimeoutArmed (phaseTimeout (config s)),
                         Delay (retryDelay (config s))]) @
              [call_of m t1, TimeoutArmed (phaseTimeout (config s))]"
  let ?evs = "concat (replicate ?N
                        [(phase m, ''module_execute_start'', DEBUG),
                         (phase m, ''module_execute_retry'', WARN)]) @
              [(phase m, ''module_execute_start'', DEBUG),
               (phase m, ''module_execute_failed'', ERROR)]"
  note f = phase_run_parts [OF assms(3)]
  from executePhase_failure [OF assms(2-5)] assms(1) obtain err t2 where
    e: "executePhase p s = (Inr (), executePhase_finally p FAILURE (handlePhaseError err p t2))"
    and r: "race m (execute m (executions t1 (mref m) + ?N)) = Inl err"
    and pr: "progress m (?N + 1) t1 t2 ?acts ?evs"
    by auto
  let ?s' = "executePhase_finally p FAILURE (handlePhaseError err p t2)"
  have st: "static t2 = static t1" using pr by (simp only: progress_def)
  note g = static_fields [OF st]
  have c2: "ctx t2 \<noteq> None" using g(11) f(8) by simp
  have tr: "engine_calls (trace t2) = engine_calls (trace t1) @ ?acts"
    using pr by (rule progress_calls)
  have lg: "kinds (log_of t2) = kinds (log_of t1) @ ?evs"
    using pr f(8) by (simp only: progress_def) simp
  have co: "call_of m t1 = call_of m (phase_entry p s)"
    using static_phase_run [OF assms(3)] by (rule call_of_static)
  have 1: "errors_of ?s' = errors_of s @ [err]"
    using c2 errors_of_static [OF st] by (simp add: handlePhaseError_ctx f(9))
  have 2: "kinds (log_of ?s') = kinds (log_of t1) @
        concat (replicate ?N
                  [(phase m, ''module_execute_start'', DEBUG),
                   (phase m, ''module_execute_retry'', WARN)]) @
        [(phase m, ''module_execute_start'', DEBUG),
         (phase m, ''module_execute_failed'', ERROR),
         (p, ''phase_error'', ERROR)]"
    using c2 by (simp add: handlePhaseError_ctx lg fullEvent_def)
  have 3: "engine_calls (trace ?s') = engine_calls (trace t1) @
        concat (replicate ?N
                  [call_of m (phase_entry p s), TimeoutArmed (phaseTimeout (config s)),
                   Delay (retryDelay (config s))]) @
        [call_of m (phase_entry p s), TimeoutArmed (phaseTimeout (config s))] @
        observer_error_calls (observers s) err p"
    by (simp add: static_handlePhaseError tr co g(5) f(5))
  have "exec_calls (trace ?s') = exec_calls (engine_calls (trace ?s'))" by simp
  also have "\<dots> = exec_calls (trace t1) @ replicate (?N + 1) (mref m)"
    by (simp only: 3) (simp add: exec_calls_attempts replicate_append_same)
  finally have 4: "exec_calls (trace ?s') = exec_calls (trace t1) @ replicate (?N + 1) (mref m)" .
  have 5: "failureCount (phaseStats (stats ?s') p) = failureCount (phaseStats (stats s) p) + 1"
    by (simp add: static_handlePhaseError g(6) f(6))
  have 6: "\<forall>ps. start_phases (p # ps) s = start_phases ps ?s'"
    by (simp add: e)
  from e r 1 2 3 4 5 6 show ?thesis by blast
qed

lemma exec_calls_cong: "engine_calls t' = engine_calls t \<Longrightarrow> exec_calls t' = exec_calls t"
  by (metis exec_calls_engine_calls)

lemma continue_engine_parts:
  "config continue_engine = default_config\<lparr>continueOnError := True, maxRetries := 1\<rparr>"
  "phase_modules PREPARATION continue_engine = [failing_module, ok_module]"
  "engine_calls (trace continue_engine) = []"
  "observers continue_engine = []"
  "ctx continue_engine = None"
  "state continue_engine = STOPPED"
proof -
  have i: "initialize_is_function failing_module" "initialize_is_function ok_module"
    by (simp_all add: failing_module_def ok_module_def)
  show "config continue_engine = default_config\<lparr>continueOnError := True, maxRetries := 1\<rparr>"
    by (simp add: continue_engine_def registerModule_parts i)
  show "phase_modules PREPARATION continue_engine = [failing_module, ok_module]"
    by (simp add: continue_engine_def registerModule_parts i) (simp add: phase_modules_def)
  show "engine_calls (trace continue_engine) = []"
    by (simp add: continue_engine_def registerModule_parts i)
  show "observers continue_engine = []"
    by (simp add: continue_engine_def registerModule_parts i)
  show "ctx continue_engine = None"
    by (simp add: continue_engine_def registerModule_parts i)
  show "state continue_engine = STOPPED"
    by (simp add: continue_engine_def)
qed

lemma start_entry_parts [simp]:
  "state (start_entry s) = RUNNING"
  "config (start_entry s) = config s"
  "modules (start_entry s) = modules s"
  "phase_modules q (start_entry s) = phase_modules q s"
  "listeners (start_entry s) = listeners s"
  "observers (start_entry s) = observers s"
  "stats (start_entry s) = stats s"
  "executions (start_entry s) = executions s"
  "currentPhase (start_entry s) = currentPhase s"
  "engine_calls (trace (start_entry s)) = engine_calls (trace s)"
  "(ctx (start_entry s) = None) = (ctx s = None)"
  by (simp_all add: start_entry_def phase_modules_def ctx_logEvent)

lemma initialize_success_state: "initialize s = (Inr (), s0) \<Longrightarrow> state s0 = STOPPED"
  by (auto simp: initialize_def initialize_try_def Let_def
      split: if_splits prod.splits sum.splits)

lemma start_eq:
  assumes "if state s = UNINITIALIZED then initialize s = (Inr (), s0)
           else s0 = s \<and> (state s = STOPPED \<or> state s = PAUSED)"
  shows "start s =
     (case start_phases [PREPARATION, VALIDATION, EXECUTION, MONITORING, CLEANUP]
             (start_entry s0) of
        (Inr u, s3) \<Rightarrow>
          (Inr (),
           logEvent
             \<lparr>pe_phase = Some CLEANUP, pe_type = Some ''lifecycle_complete'',
              pe_level = Some INFO, pe_data = None\<rparr>
             (s3\<lparr>stats := (stats s3)
                     \<lparr>totalExecutions := totalExecutions (stats s3) + 1,
                      successfulExecutions := successfulExecutions (stats s3) + 1\<rparr>,
                  state := STOPPED\<rparr>))
      | (Inl err, s3) \<Rightarrow>
          (Inl err,
           handleLifecycleError err
             (s3\<lparr>state := STATE_ERROR,
                 stats := (stats s3)
                     \<lparr>totalExecutions := totalExecutions (stats s3) + 1,
                      failedExecutions := failedExecutions (stats s3) + 1\<rparr>\<rparr>)))"
proof -
  have st: "state s0 = STOPPED \<or> state s0 = PAUSED"
    using assms initialize_success_state [of s s0] by (auto split: if_splits)
  have pre: "(if state s = UNINITIALIZED then initialize s else (Inr (), s)) = (Inr (), s0)"
    using assms by (auto split: if_splits)
  show ?thesis
    using st
    by (auto simp: start_def pre start_try_def Let_def start_entry_def
        split: prod.splits sum.splits)
qed

lemma executePhase_no_modules:
  "phase_modules p s = [] \<Longrightarrow> fst (executePhase p s) = Inr ()"
  by (simp add: executePhase_eq)

lemma phase_modules_executePhase [simp]:
  "phase_modules q (snd (executePhase p s)) = phase_modules q s"
  by (simp add: phase_modules_def executePhase_parts(3))

lemma handleLifecycleError_parts [simp]:
  "state (handleLifecycleError err s) = state s"
  "stats (handleLifecycleError err s) = stats s"
  "config (handleLifecycleError err s) = config s"
  "modules (handleLifecycleError err s) = modules s"
  "engine_calls (trace (handleLifecycleError err s)) = engine_calls (trace s)"
  "log_of (handleLifecycleError err s) =
     log_of s @
     (if ctx s = None then []
      else [fullEvent
              \<lparr>pe_phase = Some (currentPhase_or_default s), pe_type = Some ''lifecycle_error'',
               pe_level = Some CRITICAL, pe_data = Some (ErrorInfo err)\<rparr>
              (eventCounter s + 1) (currentPhase s)])"
  by (simp_all add: handleLifecycleError_def log_of_logEvent)

lemma exec_calls_frames [simp]:
  "exec_calls (trace (logEvent e s)) = exec_calls (trace s)"
  "exec_calls (trace (handleLifecycleError err s)) = exec_calls (trace s)"
  "exec_calls (trace (phase_entry p s)) = exec_calls (trace s)"
  "exec_calls (trace (start_entry s)) = exec_calls (trace s)"
  "exec_calls (trace (stop s)) = exec_calls (trace s)"
  "exec_calls (trace (new_LifecycleEngine cfg)) = []"
  by (rule exec_calls_cong, simp)+
    (use exec_calls_cong [of "trace (new_LifecycleEngine cfg)" "[]"] in simp)

lemma exec_calls_handlePhaseError [simp]:
  "exec_calls (trace (handlePhaseError err p s)) = exec_calls (trace s)"
proof -
  have "exec_calls (trace (handlePhaseError err p s)) =
        exec_calls (engine_calls (trace (handlePhaseError err p s)))" by simp
  also have "\<dots> = exec_calls (trace s)"
    by (simp only: static_handlePhaseError) simp
  finally show ?thesis .
qed

lemma start_aborts:
  assumes "\<not> continueOnError (config s0)"
    and "if state s = UNINITIALIZED then initialize s = (Inr (), s0)
         else s0 = s \<and> (state s = STOPPED \<or> state s = PAUSED)"
    and "executePhase PREPARATION (start_entry s0) = (Inr (), s1)"
    and "phase_modules VALIDATION s0 = ms1 @ m # ms2"
    and "executePhaseModules_loop ms1 (phase_entry VALIDATION s1) = (Inr (), t1)"
    and "\<forall>n. execute m n \<noteq> Resolves"
    and "0 \<le> maxRetries (config s0)"
  shows "\<exists>err s'. start s = (Inl err, s') \<and>
      race m (execute m (executions t1 (mref m) + nat (maxRetries (config s0)))) = Inl err \<and>
      state s' = STATE_ERROR \<and>
      failedExecutions (stats s') = failedExecutions (stats s0) + 1 \<and>
      totalExecutions (stats s') = totalExecutions (stats s0) + 1 \<and>
      last (kinds (log_of s')) = (VALIDATION, ''lifecycle_error'', CRITICAL) \<and>
      exec_calls (trace s') =
        exec_calls (trace t1) @ replicate (nat (maxRetries (config s0)) + 1) (mref m) \<and>
      executionCount (phaseStats (stats s') EXECUTION) =
        executionCount (phaseStats (stats s0) EXECUTION) \<and>
      executionCount (phaseStats (stats s') MONITORING) =
        executionCount (phaseStats (stats s0) MONITORING) \<and>
      executionCount (phaseStats (stats s') CLEANUP) =
        executionCount (phaseStats (stats s0) CLEANUP)"
proof -
  let ?N = "nat (maxRetries (config s0))"
  let ?e = "start_entry s0"
  have s1: "s1 = snd (executePhase PREPARATION ?e)" using assms(3) by simp
  have c1: "config s1 = config s0" by (simp add: s1 executePhase_parts)
  have m1: "phase_modules VALIDATION s1 = ms1 @ m # ms2"
    by (simp add: s1 assms(4))
  have n1: "0 \<le> maxRetries (config s1)" using assms(7) by (simp add: c1)
  have st1: "totalExecutions (stats s1) = totalExecutions (stats s0)"
    "failedExecutions (stats s1) = failedExecutions (stats s0)"
    "phaseStats (stats s1) EXECUTION = phaseStats (stats s0) EXECUTION"
    "phaseStats (stats s1) MONITORING = phaseStats (stats s0) MONITORING"
    "phaseStats (stats s1) CLEANUP = phaseStats (stats s0) CLEANUP"
    by (simp_all add: s1 executePhase_parts)
  note f = phase_run_parts [OF assms(5)]
  from executePhase_failure [OF m1 assms(5,6) n1] assms(1) obtain err t2 where
    e: "executePhase VALIDATION s1 =
          (Inl err, executePhase_finally VALIDATION FAILURE (handlePhaseError err VALIDATION t2))"
    and r: "race m (execute m (executions t1 (mref m) + nat (maxRetries (config s1)))) = Inl err"
    and pr: "progress m (nat (maxRetries (config s1)) + 1) t1 t2
             (concat (replicate (nat (maxRetries (config s1)))
                        [call_of m t1, TimeoutArmed (phaseTimeout (config s1)),
                         Delay (retryDelay (config s1))]) @
              [call_of m t1, TimeoutArmed (phaseTimeout (config s1))])
             (concat (replicate (nat (maxRetries (config s1)))
                        [(phase m, ''module_execute_start'', DEBUG),
                         (phase m, ''module_execute_retry'', WARN)]) @
              [(phase m, ''module_execute_start'', DEBUG),
               (phase m, ''module_execute_failed'', ERROR)])"
    by (auto simp: c1)
  let ?s2 = "executePhase_finally VALIDATION FAILURE (handlePhaseError err VALIDATION t2)"
  let ?s3 = "?s2\<lparr>state := STATE_ERROR,
                 stats := (stats ?s2)
                     \<lparr>totalExecutions := totalExecutions (stats ?s2) + 1,
                      failedExecutions := failedExecutions (stats ?s2) + 1\<rparr>\<rparr>"
  let ?s' = "handleLifecycleError err ?s3"
  have sp: "start_phases [PREPARATION, VALIDATION, EXECUTION, MONITORING, CLEANUP] ?e =
            (Inl err, ?s2)"
    by (simp add: assms(3) e)
  have 0: "start s = (Inl err, ?s')"
    by (simp only: start_eq [OF assms(2)] sp prod.case sum.case)
  have st: "static t2 = static t1" using pr by (simp only: progress_def)
  note g = static_fields [OF st]
  have c2: "ctx t2 \<noteq> None" using g(11) f(8) by simp
  have tr: "exec_calls (trace t2) = exec_calls (trace t1) @ replicate (?N + 1) (mref m)"
  proof -
    have "exec_calls (trace t2) = exec_calls (engine_calls (trace t2))" by simp
    also have "\<dots> = exec_calls (trace t1) @ replicate (?N + 1) (mref m)"
      by (simp only: progress_calls [OF pr] c1)
        (simp add: exec_calls_attempts replicate_append_same)
    finally show ?thesis .
  qed
  have 1: "state ?s' = STATE_ERROR" by simp
  have 2: "failedExecutions (stats ?s') = failedExecutions (stats s0) + 1"
    by (simp add: static_handlePhaseError g(6) f(6) st1)
  have 3: "totalExecutions (stats ?s') = totalExecutions (stats s0) + 1"
    by (simp add: static_handlePhaseError g(6) f(6) st1)
  have c3: "(ctx (handlePhaseError err VALIDATION t2) = None) = False"
    using c2 by (simp add: handlePhaseError_ctx)
  have 4: "last (kinds (log_of ?s')) = (VALIDATION, ''lifecycle_error'', CRITICAL)"
    by (simp add: c3 fullEvent_def currentPhase_or_default_def
        static_handlePhaseError g(2) f(7))
  have 5: "exec_calls (trace ?s') =
      exec_calls (trace t1) @ replicate (?N + 1) (mref m)"
    by (simp add: tr)
  have 6: "executionCount (phaseStats (stats ?s') EXECUTION) =
        executionCount (phaseStats (stats s0) EXECUTION)"
      "executionCount (phaseStats (stats ?s') MONITORING) =
        executionCount (phaseStats (stats s0) MONITORING)"
      "executionCount (phaseStats (stats ?s') CLEANUP) =
        executionCount (phaseStats (stats s0) CLEANUP)"
    by (simp_all add: static_handlePhaseError g(6) f(6) st1)
  have r': "race m (execute m (executions t1 (mref m) + ?N)) = Inl err"
    using r by (simp add: c1)
  from 0 r' 1 2 3 4 5 6 show ?thesis by blast
qed

lemma executePhase_no_modules_calls:
  "phase_modules p s = [] \<Longrightarrow> exec_calls (trace (snd (executePhase p s))) = exec_calls (trace s)"
  by (simp add: executePhase_eq)

lemma new_LifecycleEngine_stats [simp]:
  "stats (new_LifecycleEngine cfg) =
     \<lparr>totalExecutions = 0, successfulExecutions = 0, failedExecutions = 0,
      phaseStats = initializePhaseStats\<rparr>"
  by (simp add: new_LifecycleEngine_def)

lemma abort_engine_parts:
  "config abort_engine = default_config\<lparr>maxRetries := 0\<rparr>"
  "phase_modules PREPARATION abort_engine = []"
  "phase_modules VALIDATION abort_engine = [failing_module]"
  "phase_modules EXECUTION abort_engine = [ok_module]"
  "exec_calls (trace abort_engine) = []"
  "state abort_engine = STOPPED"
  "stats abort_engine =
     \<lparr>totalExecutions = 0, successfulExecutions = 0, failedExecutions = 0,
      phaseStats = initializePhaseStats\<rparr>"
proof -
  have i: "initialize_is_function failing_module" "initialize_is_function ok_module"
    by (simp_all add: failing_module_def ok_module_def)
  show "config abort_engine = default_config\<lparr>maxRetries := 0\<rparr>"
    by (simp add: abort_engine_def registerModule_parts i)
  show "phase_modules PREPARATION abort_engine = []"
    by (simp add: abort_engine_def registerModule_parts i) (simp add: phase_modules_def)
  show "phase_modules VALIDATION abort_engine = [failing_module]"
    by (simp add: abort_engine_def registerModule_parts i) (simp add: phase_modules_def)
  show "phase_modules EXECUTION abort_engine = [ok_module]"
    by (simp add: abort_engine_def registerModule_parts i) (simp add: phase_modules_def)
  have "engine_calls (trace abort_engine) = []"
    by (simp add: abort_engine_def registerModule_parts i)
  then show "exec_calls (trace abort_engine) = []"
    using exec_calls_cong [of "trace abort_engine" "[]"] by simp
  show "state abort_engine = STOPPED" by (simp add: abort_engine_def)
  show "stats abort_engine =
     \<lparr>totalExecutions = 0, successfulExecutions = 0, failedExecutions = 0,
      phaseStats = initializePhaseStats\<rparr>"
    by (simp add: abort_engine_def registerModule_parts i)
qed

lemma addObserver_parts [simp]:
  "state (addObserver ob s) = state s"
  "modules (addObserver ob s) = modules s"
  "phase_modules q (addObserver ob s) = phase_modules q s"
  "config (addObserver ob s) = config s"
  "(ctx (addObserver ob s) = None) = (ctx s = None)"
  "currentPhase (addObserver ob s) = currentPhase s"
  "observers (addObserver ob s) =
     (if oid ob \<in> oid ` set (observers s) then observers s else observers s @ [ob])"
  "listeners (addObserver ob s) = listeners s"
  "executions (addObserver ob s) = executions s"
  "stats (addObserver ob s) = stats s"
  "engine_calls (trace (addObserver ob s)) = engine_calls (trace s)"
  by (simp_all add: addObserver_def ctx_logEvent phase_modules_def)

lemma grows_start_phases: "grows run_action s (snd (start_phases ps s))"
proof (induction ps arbitrary: s)
  case Nil
  show ?case by simp
next
  case (Cons p ps)
  obtain r s' where e: "executePhase p s = (r, s')" by (cases "executePhase p s")
  have g: "grows run_action s s'" using executePhase_parts(13) [of s p] e by simp
  show ?case
  proof (cases r)
    case (Inl err)
    with e g show ?thesis by simp
  next
    case (Inr u)
    have "grows run_action s' (snd (start_phases ps s'))" by (rule Cons)
    with g have "grows run_action s (snd (start_phases ps s'))" by (rule grows_trans)
    with e Inr show ?thesis by simp
  qed
qed

lemma start_phases_no_modules:
  "\<forall>p\<in>set ps. phase_modules p s = [] \<Longrightarrow> fst (start_phases ps s) = Inr ()"
proof (induction ps arbitrary: s)
  case Nil
  show ?case by simp
next
  case (Cons p ps)
  have "fst (executePhase p s) = Inr ()"
    using Cons.prems by (simp add: executePhase_no_modules)
  then have e: "executePhase p s = (Inr (), snd (executePhase p s))"
    by (metis prod.collapse)
  have "fst (start_phases ps (snd (executePhase p s))) = Inr ()"
    using Cons.prems by (intro Cons.IH) simp
  then show ?case by (subst start_phases.simps, subst e) simp
qed

lemma grows_start_ready:
  assumes "state s = STOPPED \<or> state s = PAUSED"
  shows "grows run_action s (snd (start s))"
proof -
  let ?ps = "[PREPARATION, VALIDATION, EXECUTION, MONITORING, CLEANUP]"
  have r: "if state s = UNINITIALIZED then initialize s = (Inr (), s)
           else s = s \<and> (state s = STOPPED \<or> state s = PAUSED)"
    using assms by auto
  obtain r3 s3 where sp: "start_phases ?ps (start_entry s) = (r3, s3)"
    by (cases "start_phases ?ps (start_entry s)")
  have "grows run_action (start_entry s) s3"
    using grows_start_phases [of "start_entry s" ?ps] sp by simp
  then have g: "grows run_action s s3" by (simp add: grows_def)
  have "engine_calls (trace (snd (start s))) = engine_calls (trace s3)"
    by (cases r3) (simp_all only: start_eq [OF r] sp prod.case sum.case snd_conv
        logEvent_parts handleLifecycleError_parts, simp_all)
  then show ?thesis using g by (rule grows_cong)
qed

lemma no_phase_hooks:
  "filter is_ObserverCall (trace (snd (executePhase p s))) = filter is_ObserverCall (trace s)"
  by (rule grows_filter [OF executePhase_parts(13)])
    (auto simp: is_ObserverCall_def run_action_def is_log_action_def split: action.splits)

lemma no_phase_hooks_start:
  "state s = STOPPED \<or> state s = PAUSED \<Longrightarrow>
   filter is_ObserverCall (trace (snd (start s))) = filter is_ObserverCall (trace s)"
  by (rule grows_filter [OF grows_start_ready])
    (auto simp: is_ObserverCall_def run_action_def is_log_action_def split: action.splits)

lemma filter_engine_calls_empty:
  assumes "engine_calls t = []" and "\<And>a. P a \<Longrightarrow> \<not> is_log_action a"
  shows "filter P t = []"
proof -
  have "filter P (engine_calls t) = filter P t"
    using assms(2) by (induction t) (auto simp: engine_calls_def)
  with assms(1) show ?thesis by simp
qed

lemma observed_engine_parts:
  "state observed_engine = STOPPED"
  "observers observed_engine = [phase_observer]"
  "phase_modules p observed_engine = []"
  "engine_calls (trace observed_engine) = []"
  "stats observed_engine =
     \<lparr>totalExecutions = 0, successfulExecutions = 0, failedExecutions = 0,
      phaseStats = initializePhaseStats\<rparr>"
  by (simp_all add: observed_engine_def) (simp add: phase_modules_def)





lemma kept_logEvent [simp]: "kept s (logEvent e s)"
  by (simp add: kept_def)

lemma init_action_observer_calls: "list_all init_action (observer_calls obs mn)"
  by (induction obs) (auto simp: init_action_def split: option.splits callback_result.splits)

lemma engine_calls_observer_calls [simp]:
  "engine_calls (observer_calls obs mn) = observer_calls obs mn"
  by (induction obs) (auto split: option.splits callback_result.splits)

lemma notifyObservers_state:
  "\<exists>xs. snd (notifyObservers mn s) = s\<lparr>trace := trace s @ xs\<rparr> \<and>
        engine_calls xs = xs \<and> list_all init_action xs"
proof -
  obtain pr s1 where n: "notifyObserversByMethod mn s = (pr, s1)"
    by (cases "notifyObserversByMethod mn s")
  have s1: "s1 = s\<lparr>trace := trace s @ observer_calls (observers s) mn\<rparr>"
    using notifyObserversByMethod_loop_state [of "observers s" mn "[]" s] n
    by (simp add: notifyObserversByMethod_def)
  show ?thesis
  proof (cases pr)
    case (Rejected e)
    then have "snd (notifyObservers mn s) = s\<lparr>trace := trace s @ observer_calls (observers s) mn\<rparr>"
      by (simp add: notifyObservers_def n await_def s1)
    then show ?thesis using init_action_observer_calls by fastforce
  next
    case (Pending ps)
    show ?thesis
    proof (cases "ps = []")
      case True
      then have "snd (notifyObservers mn s) =
          s\<lparr>trace := trace s @ observer_calls (observers s) mn\<rparr>"
        by (simp add: notifyObservers_def n await_def s1 Pending)
      then show ?thesis using init_action_observer_calls by fastforce
    next
      case False
      then have "snd (notifyObservers mn s) =
          s\<lparr>trace := trace s @ (observer_calls (observers s) mn @ [AwaitAll (map fst ps)])\<rparr>"
        by (simp add: notifyObservers_def n await_def s1 Pending Let_def split: option.splits)
      moreover have "list_all init_action (observer_calls (observers s) mn @ [AwaitAll (map fst ps)])"
        using init_action_observer_calls by (simp add: init_action_def)
      moreover have "engine_calls (observer_calls (observers s) mn @ [AwaitAll (map fst ps)]) =
          observer_calls (observers s) mn @ [AwaitAll (map fst ps)]"
        by simp
      ultimately show ?thesis by blast
    qed
  qed
qed




lemma kept_updates [simp]:
  "kept s (s\<lparr>state := st\<rparr>)"
  "kept s (s\<lparr>ctx := c\<rparr>)"
  "kept s (s\<lparr>stats := sa\<rparr>)"
  by (simp_all add: kept_def grows_def)





lemma initialize_plain:
  assumes "state s = UNINITIALIZED" and "observers s = []"
    and "phase_modules INITIALIZATION s = []"
  shows "initialize s =
     (Inr (),
      logEvent
        \<lparr>pe_phase = Some INITIALIZATION, pe_type = Some ''initialization_complete'',
         pe_level = Some INFO, pe_data = None\<rparr>
        ((logEvent
            \<lparr>pe_phase = Some INITIALIZATION, pe_type = Some ''initialization_start'',
             pe_level = Some INFO, pe_data = None\<rparr>
            (s\<lparr>state := PREPARING, ctx := Some (createContext s)\<rparr>))\<lparr>state := STOPPED\<rparr>))"
proof -
  let ?s3 = "logEvent
            \<lparr>pe_phase = Some INITIALIZATION, pe_type = Some ''initialization_start'',
             pe_level = Some INFO, pe_data = None\<rparr>
            (s\<lparr>state := PREPARING, ctx := Some (createContext s)\<rparr>)"
  have c: "createContext (s\<lparr>state := PREPARING\<rparr>) = createContext s"
    by (simp add: createContext_def)
  have n: "notifyObservers mn ?s3 = (Inr (), ?s3)" for mn
    by (simp add: notifyObservers_def notifyObserversByMethod_def assms(2) await_def)
  have g: "snd (getContext ?s3) = ?s3"
    by (rule getContext_Some) (simp add: ctx_logEvent)
  have m: "modules ?s3 INITIALIZATION = modules s INITIALIZATION" by simp
  have p: "executePhaseModules INITIALIZATION ?s3 = (Inr (), ?s3)"
    using assms(3) by (simp add: executePhaseModules_def Let_def g m phase_modules_def)
  show ?thesis
    using assms(1) by (simp add: initialize_def initialize_try_def Let_def c n p)
qed

lemma executePhase_single_ok:
  assumes "phase_modules p s = [m]" and "execute m (executions s (mref m)) = Resolves"
    and "0 \<le> maxRetries (config s)"
  shows "fst (executePhase p s) = Inr ()"
    and "engine_calls (trace (snd (executePhase p s))) =
           engine_calls (trace s) @
           [call_of m (phase_entry p s), TimeoutArmed (phaseTimeout (config s))]"
proof -
  let ?e = "phase_entry p s"
  have a1: "\<forall>i<0. execute m (executions ?e (mref m) + i) \<noteq> Resolves" by simp
  have a2: "execute m (executions ?e (mref m) + 0) = Resolves" using assms(2) by simp
  have a3: "int 0 \<le> maxRetries (config ?e)" using assms(3) by simp
  from executeModule_succeeds_after [OF a1 a2 a3] obtain s' where
    e: "executeModule m ?e = (Inr (), s')"
    and pr: "progress m (0 + 1) ?e s'
       (concat (replicate 0 [call_of m ?e, TimeoutArmed (phaseTimeout (config ?e)),
                             Delay (retryDelay (config ?e))]) @
        [call_of m ?e, TimeoutArmed (phaseTimeout (config ?e))])
       (concat (replicate 0 [(phase m, ''module_execute_start'', DEBUG),
                             (phase m, ''module_execute_retry'', WARN)]) @
        [(phase m, ''module_execute_start'', DEBUG),
         (phase m, ''module_execute_complete'', DEBUG)])"
    by blast
  have l: "executePhaseModules_loop (phase_modules p s) ?e = (Inr (), s')"
    by (simp add: assms(1) e)
  show "fst (executePhase p s) = Inr ()" by (simp add: executePhase_eq l)
  show "engine_calls (trace (snd (executePhase p s))) =
           engine_calls (trace s) @
           [call_of m (phase_entry p s), TimeoutArmed (phaseTimeout (config s))]"
    using progress_calls [OF pr] by (simp add: executePhase_eq l)
qed

lemma executePhase_no_modules_engine_calls:
  "phase_modules p s = [] \<Longrightarrow>
   engine_calls (trace (snd (executePhase p s))) = engine_calls (trace s)"
  by (simp add: executePhase_eq)

lemma start_phases_no_modules_calls:
  "\<forall>p\<in>set ps. phase_modules p s = [] \<Longrightarrow>
   engine_calls (trace (snd (start_phases ps s))) = engine_calls (trace s)"
proof (induction ps arbitrary: s)
  case Nil
  show ?case by simp
next
  case (Cons p ps)
  have "fst (executePhase p s) = Inr ()"
    using Cons.prems by (simp add: executePhase_no_modules)
  then have e: "executePhase p s = (Inr (), snd (executePhase p s))"
    by (metis prod.collapse)
  have "engine_calls (trace (snd (start_phases ps (snd (executePhase p s))))) =
        engine_calls (trace (snd (executePhase p s)))"
    using Cons.prems by (intro Cons.IH) simp
  also have "\<dots> = engine_calls (trace s)"
    using Cons.prems by (simp add: executePhase_no_modules_engine_calls)
  finally show ?case by (subst start_phases.simps, subst e) simp
qed

lemma start_single_module:
  assumes "if state s = UNINITIALIZED then initialize s = (Inr (), s0)
           else s0 = s \<and> (state s = STOPPED \<or> state s = PAUSED)"
    and "phase_modules PREPARATION s0 = [m]"
    and "\<forall>p\<in>set [VALIDATION, EXECUTION, MONITORING, CLEANUP]. phase_modules p s0 = []"
    and "execute m (executions s0 (mref m)) = Resolves"
    and "0 \<le> maxRetries (config s0)"
  shows "fst (start s) = Inr ()"
    and "engine_calls (trace (snd (start s))) =
           engine_calls (trace s0) @
           [ExecuteCall (mref m) PREPARATION
              (Some (case ctx s0 of Some c \<Rightarrow> ctx_currentPhase c | None \<Rightarrow> PREPARATION)),
            TimeoutArmed (phaseTimeout (config s0))]"
proof -
  let ?e = "start_entry s0"
  let ?rest = "[VALIDATION, EXECUTION, MONITORING, CLEANUP]"
  have b1: "phase_modules PREPARATION ?e = [m]" using assms(2) by simp
  have b2: "execute m (executions ?e (mref m)) = Resolves" using assms(4) by simp
  have b3: "0 \<le> maxRetries (config ?e)" using assms(5) by simp
  have "fst (executePhase PREPARATION ?e) = Inr ()"
    using b1 b2 b3 by (rule executePhase_single_ok(1))
  then obtain s1 where e1: "executePhase PREPARATION ?e = (Inr (), s1)"
    by (metis prod.collapse)
  then have s1: "s1 = snd (executePhase PREPARATION ?e)" by simp
  have c1: "engine_calls (trace s1) =
           engine_calls (trace ?e) @
           [call_of m (phase_entry PREPARATION ?e), TimeoutArmed (phaseTimeout (config ?e))]"
    unfolding s1 using b1 b2 b3 by (rule executePhase_single_ok(2))
  have cx: "(case ctx ?e of Some c \<Rightarrow> ctx_currentPhase c | None \<Rightarrow> PREPARATION) =
            (case ctx s0 of Some c \<Rightarrow> ctx_currentPhase c | None \<Rightarrow> PREPARATION)"
    by (cases "ctx s0") (simp_all add: start_entry_def ctx_logEvent)
  have no: "\<forall>p\<in>set ?rest. phase_modules p s1 = []" using assms(3) by (simp add: s1)
  have "fst (start_phases ?rest s1) = Inr ()" using no by (rule start_phases_no_modules)
  then obtain s5 where e2: "start_phases ?rest s1 = (Inr (), s5)"
    by (metis prod.collapse)
  then have s5: "s5 = snd (start_phases ?rest s1)" by simp
  have c2: "engine_calls (trace s5) = engine_calls (trace s1)"
    unfolding s5 using no by (rule start_phases_no_modules_calls)
  have sp: "start_phases (PREPARATION # ?rest) ?e = (Inr (), s5)"
    by (simp only: start_phases.simps(2) [of PREPARATION ?rest ?e] e1 prod.case sum.case)
      (rule e2)
  show "fst (start s) = Inr ()"
    by (simp only: start_eq [OF assms(1)] sp prod.case sum.case fst_conv)
  show "engine_calls (trace (snd (start s))) =
           engine_calls (trace s0) @
           [ExecuteCall (mref m) PREPARATION
              (Some (case ctx s0 of Some c \<Rightarrow> ctx_currentPhase c | None \<Rightarrow> PREPARATION)),
            TimeoutArmed (phaseTimeout (config s0))]"
    by (simp only: start_eq [OF assms(1)] sp prod.case sum.case snd_conv)
      (simp add: c2 c1 call_of_phase_entry cx)
qed

lemma fresh_engine_parts:
  "state fresh_engine = UNINITIALIZED"
  "observers fresh_engine = []"
  "config fresh_engine = default_config"
  "phase_modules p fresh_engine = (if p = PREPARATION then [ok_module] else [])"
  "engine_calls (trace fresh_engine) = []"
  "ctx fresh_engine = None"
  "currentPhase fresh_engine = None"
  "executions fresh_engine = (\<lambda>r. 0)"
proof -
  have i: "initialize_is_function ok_module" by (simp add: ok_module_def)
  show "state fresh_engine = UNINITIALIZED" "observers fresh_engine = []"
    "config fresh_engine = default_config" "engine_calls (trace fresh_engine) = []"
    "ctx fresh_engine = None" "currentPhase fresh_engine = None"
    "executions fresh_engine = (\<lambda>r. 0)"
    by (simp_all add: fresh_engine_def registerModule_parts [OF i])
  show "phase_modules p fresh_engine = (if p = PREPARATION then [ok_module] else [])"
    by (simp add: fresh_engine_def registerModule_parts [OF i]) (simp add: phase_modules_def)
qed

lemma start_fresh_engine:
  "fst (start fresh_engine) = Inr ()"
  "engine_calls (trace (snd (start fresh_engine))) =
     [ExecuteCall (mref ok_module) PREPARATION (Some INITIALIZATION), TimeoutArmed 30000]"
proof -
  let ?s = fresh_engine
  let ?i = "logEvent
        \<lparr>pe_phase = Some INITIALIZATION, pe_type = Some ''initialization_complete'',
         pe_level = Some INFO, pe_data = None\<rparr>
        ((logEvent
            \<lparr>pe_phase = Some INITIALIZATION, pe_type = Some ''initialization_start'',
             pe_level = Some INFO, pe_data = None\<rparr>
            (?s\<lparr>state := PREPARING, ctx := Some (createContext ?s)\<rparr>))\<lparr>state := STOPPED\<rparr>)"
  have i: "initialize ?s = (Inr (), ?i)"
    by (rule initialize_plain) (simp_all add: fresh_engine_parts)
  have a1: "if state ?s = UNINITIALIZED then initialize ?s = (Inr (), ?i)
           else ?i = ?s \<and> (state ?s = STOPPED \<or> state ?s = PAUSED)"
    by (simp add: fresh_engine_parts i)
  have pm: "phase_modules p ?i = phase_modules p ?s" for p
    by (simp add: phase_modules_def)
  have a2: "phase_modules PREPARATION ?i = [ok_module]"
    by (simp add: pm fresh_engine_parts)
  have a3: "\<forall>p\<in>set [VALIDATION, EXECUTION, MONITORING, CLEANUP]. phase_modules p ?i = []"
    by (simp add: pm fresh_engine_parts)
  have a4: "execute ok_module (executions ?i (mref ok_module)) = Resolves"
    by (simp add: ok_module_def)
  have a5: "0 \<le> maxRetries (config ?i)"
    by (simp add: fresh_engine_parts default_config_def)
  have c: "(case ctx ?i of Some c \<Rightarrow> ctx_currentPhase c | None \<Rightarrow> PREPARATION) = INITIALIZATION"
    by (simp add: ctx_logEvent createContext_def fresh_engine_parts)
  show "fst (start ?s) = Inr ()"
    using a1 a2 a3 a4 a5 by (rule start_single_module(1))
  show "engine_calls (trace (snd (start ?s))) =
     [ExecuteCall (mref ok_module) PREPARATION (Some INITIALIZATION), TimeoutArmed 30000]"
    by (simp only: start_single_module(2) [OF a1 a2 a3 a4 a5] c)
      (simp add: fresh_engine_parts default_config_def)
qed

lemma start_ready_engine:
  "fst (start ready_engine) = Inr ()"
  "engine_calls (trace (snd (start ready_engine))) =
     [ExecuteCall (mref ok_module) PREPARATION (Some PREPARATION), TimeoutArmed 30000]"
proof -
  let ?s = ready_engine
  have a1: "if state ?s = UNINITIALIZED then initialize ?s = (Inr (), ?s)
           else ?s = ?s \<and> (state ?s = STOPPED \<or> state ?s = PAUSED)"
    by (simp add: ready_engine_def)
  have a2: "phase_modules PREPARATION ?s = [ok_module]"
    by (simp add: ready_engine_def fresh_engine_parts)
  have a3: "\<forall>p\<in>set [VALIDATION, EXECUTION, MONITORING, CLEANUP]. phase_modules p ?s = []"
    by (simp add: ready_engine_def fresh_engine_parts)
  have a4: "execute ok_module (executions ?s (mref ok_module)) = Resolves"
    by (simp add: ok_module_def)
  have a5: "0 \<le> maxRetries (config ?s)"
    by (simp add: ready_engine_def fresh_engine_parts default_config_def)
  have c: "ctx ?s = None"
    by (simp add: ready_engine_def fresh_engine_parts)
  show "fst (start ?s) = Inr ()"
    using a1 a2 a3 a4 a5 by (rule start_single_module(1))
  show "engine_calls (trace (snd (start ?s))) =
     [ExecuteCall (mref ok_module) PREPARATION (Some PREPARATION), TimeoutArmed 30000]"
    by (simp only: start_single_module(2) [OF a1 a2 a3 a4 a5] c)
      (simp add: ready_engine_def fresh_engine_parts default_config_def)
qed

lemma previousPhase_of_module_calls:
  "\<exists>xs. engine_calls (trace (snd (executePhase p s))) = engine_calls (trace s) @ xs \<and>
        (\<forall>r cp pp. ExecuteCall r cp pp \<in> set xs \<longrightarrow>
           cp = p \<and> pp = Some (case ctx s of Some c \<Rightarrow> ctx_currentPhase c | None \<Rightarrow> p))"
proof -
  let ?e = "phase_entry p s"
  let ?ms = "phase_modules p s"
  obtain r t where rt: "executePhaseModules_loop ?ms ?e = (r, t)"
    by (cases "executePhaseModules_loop ?ms ?e")
  from executePhaseModules_loop_calls [of ?ms ?e] rt obtain xs where
    xs: "engine_calls (trace t) = engine_calls (trace s) @ xs"
      "set xs \<subseteq> (\<Union>m\<in>set ?ms. module_actions m ?e)"
    by auto
  have ok: "cp = p \<and> pp = Some (case ctx s of Some c \<Rightarrow> ctx_currentPhase c | None \<Rightarrow> p)"
    if "ExecuteCall r cp pp \<in> set xs" for r cp pp
  proof -
    from that xs(2) obtain m where "ExecuteCall r cp pp \<in> module_actions m ?e" by auto
    then have "ExecuteCall r cp pp = call_of m ?e" by (simp add: module_actions_def)
    then show ?thesis by (simp add: call_of_phase_entry)
  qed
  show ?thesis
  proof (cases r)
    case (Inr u)
    have "engine_calls (trace (snd (executePhase p s))) = engine_calls (trace s) @ xs"
      by (simp add: executePhase_eq rt Inr xs(1))
    with ok show ?thesis by blast
  next
    case (Inl err)
    let ?ys = "observer_error_calls (observers t) err p"
    have "engine_calls (trace (snd (executePhase p s))) = engine_calls (trace s) @ (xs @ ?ys)"
      by (simp add: executePhase_eq rt Inl xs(1) static_handlePhaseError)
    moreover have "ExecuteCall r cp pp \<notin> set (observer_error_calls obs err p)" for r cp pp obs
      by (induction obs) (auto split: option.splits callback_result.splits)
    ultimately show ?thesis using ok by (metis Un_iff set_append)
  qed
qed









lemma race_phase_update [simp]: "race (m\<lparr>phase := q\<rparr>) out = race m out"
  by (cases out) (simp_all add: race_def)






lemma init_entry_parts [simp]:
  "state (init_entry s) = PREPARING"
  "config (init_entry s) = config s"
  "modules (init_entry s) = modules s"
  "observers (init_entry s) = observers s"
  "listeners (init_entry s) = listeners s"
  "stats (init_entry s) = stats s"
  "executions (init_entry s) = executions s"
  "currentPhase (init_entry s) = currentPhase s"
  "engine_calls (trace (init_entry s)) = engine_calls (trace s)"
  "ctx (init_entry s) \<noteq> None"
  "errors_of (init_entry s) = []"
  "phase_modules p (init_entry s) = phase_modules p s"
  by (simp_all add: init_entry_def Let_def ctx_logEvent errors_of_def createContext_def
      phase_modules_def)

lemma call_of_init_entry:
  "call_of m (init_entry s) = ExecuteCall (mref m) (currentPhase_or_default s) None"
  by (simp add: call_of_def init_entry_def Let_def getContext_def ctx_logEvent createContext_def
      currentPhase_or_default_def)

lemma notifyObservers_static:
  "static (snd (notifyObservers mn s)) = static s"
  using notifyObservers_state [of mn s] by auto

lemma init_run_parts:
  assumes "notifyObservers ''onInitializationStart'' (init_entry s) = (r0, u)"
    and "executePhaseModules_loop ms u = (r, t)"
  shows "static u = static (init_entry s)" "static t = static (init_entry s)"
    "config t = config s" "modules t = modules s" "observers t = observers s"
    "stats t = stats s" "ctx t \<noteq> None" "errors_of t = []" "ctx u \<noteq> None"
    "phase_modules p u = phase_modules p s"
    "call_of m t = call_of m (init_entry s)"
proof -
  show u: "static u = static (init_entry s)"
    using notifyObservers_static [of "''onInitializationStart''" "init_entry s"] assms(1)
    by simp
  have "static t = static u"
    using static_executePhaseModules_loop [of ms u] assms(2) by simp
  with u show t: "static t = static (init_entry s)" by simp
  note f = static_fields [OF t]
  note g = static_fields [OF u]
  show "config t = config s" using f(7) by simp
  show "modules t = modules s" using f(3) by simp
  show "observers t = observers s" using f(5) by simp
  show "stats t = stats s" using f(6) by simp
  show "ctx t \<noteq> None" using f(11) by simp
  show "ctx u \<noteq> None" using g(11) by simp
  show "errors_of t = []" using errors_of_static [OF t] by simp
  show "phase_modules p u = phase_modules p s" using g(3) by (simp add: phase_modules_def)
  show "call_of m t = call_of m (init_entry s)" using t by (rule call_of_static)
qed

lemma initialize_eq:
  assumes "state s = UNINITIALIZED"
    and "notifyObservers ''onInitializationStart'' (init_entry s) = (Inr (), u)"
  shows "initialize s =
     (case executePhaseModules_loop (phase_modules INITIALIZATION s) u of
        (Inl err, s5) \<Rightarrow>
          (Inl err, handlePhaseError err INITIALIZATION (s5\<lparr>state := STATE_ERROR\<rparr>))
      | (Inr x, s5) \<Rightarrow>
          (case notifyObservers ''onInitializationComplete'' s5 of
             (Inl err, s6) \<Rightarrow>
               (Inl err, handlePhaseError err INITIALIZATION (s6\<lparr>state := STATE_ERROR\<rparr>))
           | (Inr x, s6) \<Rightarrow>
               (Inr (),
                logEvent
                  \<lparr>pe_phase = Some INITIALIZATION, pe_type = Some ''initialization_complete'',
                   pe_level = Some INFO, pe_data = None\<rparr>
                  (s6\<lparr>state := STOPPED\<rparr>))))"
proof -
  obtain r t where l: "executePhaseModules_loop (phase_modules INITIALIZATION s) u = (r, t)"
    by (cases "executePhaseModules_loop (phase_modules INITIALIZATION s) u")
  note f = init_run_parts [OF assms(2) l]
  have g: "snd (getContext u) = u" using f(9) by (rule getContext_Some)
  have m: "(case modules u INITIALIZATION of Some ms \<Rightarrow> ms | None \<Rightarrow> []) =
           phase_modules INITIALIZATION s"
    using f(10) [of INITIALIZATION] by (simp add: phase_modules_def)
  have p: "executePhaseModules INITIALIZATION u =
           executePhaseModules_loop (phase_modules INITIALIZATION s) u"
    by (simp add: executePhaseModules_def Let_def g m)
  have n: "notifyObservers ''onInitializationStart''
             (logEvent
                \<lparr>pe_phase = Some INITIALIZATION, pe_type = Some ''initialization_start'',
                 pe_level = Some INFO, pe_data = None\<rparr>
                (s\<lparr>state := PREPARING, ctx := Some (createContext (s\<lparr>state := PREPARING\<rparr>))\<rparr>)) =
           (Inr (), u)"
    using assms(2) by (simp add: init_entry_def Let_def)
  show ?thesis
    using assms(1)
    by (simp add: initialize_def initialize_try_def Let_def n p
        split: prod.splits sum.splits)
qed

lemma start_initialize_fails:
  "state s = UNINITIALIZED \<Longrightarrow> initialize s = (Inl err, s') \<Longrightarrow> start s = (Inl err, s')"
  by (simp add: start_def)

lemma initialize_failure:
  assumes "state s = UNINITIALIZED"
    and "phase_modules INITIALIZATION s = ms1 @ m # ms2"
    and "notifyObservers ''onInitializationStart'' (init_entry s) = (Inr (), u)"
    and "executePhaseModules_loop ms1 u = (Inr (), t1)"
    and "\<forall>n. execute m n \<noteq> Resolves"
    and "0 \<le> maxRetries (config s)"
  shows "\<exists>err s'. initialize s = (Inl err, s') \<and> start s = (Inl err, s') \<and>
      race m (execute m (executions t1 (mref m) + nat (maxRetries (config s)))) = Inl err \<and>
      state s' = STATE_ERROR \<and>
      stats s' = stats s \<and>
      errors_of s' = [err] \<and>
      kinds (log_of s') =
        kinds (log_of t1) @
        concat (replicate (nat (maxRetries (config s)))
                  [(phase m, ''module_execute_start'', DEBUG),
                   (phase m, ''module_execute_retry'', WARN)]) @
        [(phase m, ''module_execute_start'', DEBUG),
         (phase m, ''module_execute_failed'', ERROR),
         (INITIALIZATION, ''phase_error'', ERROR)] \<and>
      engine_calls (trace s') =
        engine_calls (trace t1) @
        concat (replicate (nat (maxRetries (config s)))
                  [call_of m (init_entry s), TimeoutArmed (phaseTimeout (config s)),
                   Delay (retryDelay (config s))]) @
        [call_of m (init_entry s), TimeoutArmed (phaseTimeout (config s))] @
        observer_error_calls (observers s) err INITIALIZATION \<and>
      exec_calls (trace s') =
        exec_calls (trace t1) @ replicate (nat (maxRetries (config s)) + 1) (mref m)"
proof -
  let ?N = "nat (maxRetries (config s))"
  let ?acts = "concat (replicate ?N
                        [call_of m t1, TimeoutArmed (phaseTimeout (config t1)),
                         Delay (retryDelay (config t1))]) @
              [call_of m t1, TimeoutArmed (phaseTimeout (config t1))]"
  let ?evs = "concat (replicate ?N
                        [(phase m, ''module_execute_start'', DEBUG),
                         (phase m, ''module_execute_retry'', WARN)]) @
              [(phase m, ''module_execute_start'', DEBUG),
               (phase m, ''module_execute_failed'', ERROR)]"
  note f = init_run_parts [OF assms(3,4)]
  have m0: "0 \<le> maxRetries (config t1)" using assms(6) by (simp add: f(3))
  have N: "nat (maxRetries (config t1)) = ?N" by (simp add: f(3))
  from executeModule_always_fails [OF assms(5) m0] obtain err t2 where
    e: "executeModule m t1 = (Inl err, t2)"
    and r: "race m (execute m (executions t1 (mref m) + ?N)) = Inl err"
    and pr: "progress m (?N + 1) t1 t2 ?acts ?evs"
    by (auto simp only: N)
  let ?s' = "handlePhaseError err INITIALIZATION (t2\<lparr>state := STATE_ERROR\<rparr>)"
  have l: "executePhaseModules_loop (phase_modules INITIALIZATION s) u = (Inl err, t2)"
    using assms(4) e by (simp add: assms(2) executePhaseModules_loop_append)
  have i: "initialize s = (Inl err, ?s')"
    by (simp add: initialize_eq [OF assms(1,3)] l)
  have st: "static t2 = static t1" using pr by (simp only: progress_def)
  note g = static_fields [OF st]
  have c2: "ctx t2 \<noteq> None" using g(11) f(7) by simp
  have tr: "engine_calls (trace t2) = engine_calls (trace t1) @ ?acts"
    using pr by (rule progress_calls)
  have lg: "kinds (log_of t2) = kinds (log_of t1) @ ?evs"
    using pr f(7) by (simp only: progress_def) simp
  have 1: "state ?s' = STATE_ERROR" by (simp add: static_handlePhaseError)
  have 2: "stats ?s' = stats s" by (simp add: static_handlePhaseError g(6) f(6))
  have 3: "errors_of ?s' = [err]"
    using c2 errors_of_static [OF st] by (simp add: handlePhaseError_ctx f(8))
  have 4: "kinds (log_of ?s') = kinds (log_of t1) @
        concat (replicate ?N
                  [(phase m, ''module_execute_start'', DEBUG),
                   (phase m, ''module_execute_retry'', WARN)]) @
        [(phase m, ''module_execute_start'', DEBUG),
         (phase m, ''module_execute_failed'', ERROR),
         (INITIALIZATION, ''phase_error'', ERROR)]"
    using c2 by (simp add: handlePhaseError_ctx lg fullEvent_def)
  have 5: "engine_calls (trace ?s') = engine_calls (trace t1) @
        concat (replicate ?N
                  [call_of m (init_entry s), TimeoutArmed (phaseTimeout (config s)),
                   Delay (retryDelay (config s))]) @
        [call_of m (init_entry s), TimeoutArmed (phaseTimeout (config s))] @
        observer_error_calls (observers s) err INITIALIZATION"
    by (simp add: static_handlePhaseError tr f(11) f(3) g(5) f(5))
  have "exec_calls (trace ?s') = exec_calls (engine_calls (trace ?s'))" by simp
  also have "\<dots> = exec_calls (trace t1) @ replicate (?N + 1) (mref m)"
    by (simp only: 5) (simp add: exec_calls_attempts replicate_append_same)
  finally have 6: "exec_calls (trace ?s') = exec_calls (trace t1) @ replicate (?N + 1) (mref m)" .
  have s: "start s = (Inl err, ?s')" using assms(1) i by (rule start_initialize_fails)
  from i s r 1 2 3 4 5 6 show ?thesis by blast
qed



lemma init_failing_engine_parts:
  "config init_failing_engine = default_config\<lparr>continueOnError := True, maxRetries := 1\<rparr>"
  "phase_modules INITIALIZATION init_failing_engine = [failing_module]"
  "phase_modules PREPARATION init_failing_engine = [ok_module]"
  "engine_calls (trace init_failing_engine) = []"
  "observers init_failing_engine = []"
  "state init_failing_engine = UNINITIALIZED"
  "stats init_failing_engine =
     stats (new_LifecycleEngine (default_config\<lparr>continueOnError := True, maxRetries := 1\<rparr>))"
proof -
  have i: "initialize_is_function failing_module" "initialize_is_function ok_module"
    by (simp_all add: failing_module_def ok_module_def)
  show "config init_failing_engine = default_config\<lparr>continueOnError := True, maxRetries := 1\<rparr>"
    by (simp add: init_failing_engine_def registerModule_parts i)
  show "phase_modules INITIALIZATION init_failing_engine = [failing_module]"
    by (simp add: init_failing_engine_def registerModule_parts i) (simp add: phase_modules_def)
  show "phase_modules PREPARATION init_failing_engine = [ok_module]"
    by (simp add: init_failing_engine_def registerModule_parts i) (simp add: phase_modules_def)
  show "engine_calls (trace init_failing_engine) = []"
    by (simp add: init_failing_engine_def registerModule_parts i)
  show "observers init_failing_engine = []"
    by (simp add: init_failing_engine_def registerModule_parts i)
  show "state init_failing_engine = UNINITIALIZED"
    by (simp add: init_failing_engine_def registerModule_parts i)
  show "stats init_failing_engine =
     stats (new_LifecycleEngine (default_config\<lparr>continueOnError := True, maxRetries := 1\<rparr>))"
    by (simp add: init_failing_engine_def registerModule_parts i)
qed

lemma notifyObservers_no_observers:
  "observers s = [] \<Longrightarrow> notifyObservers mn s = (Inr (), s)"
  by (simp add: notifyObservers_def notifyObserversByMethod_def await_def)

section \<open>The claims\<close>

text \<open>
  C6. With \<open>saveHistory\<close> enabled, after \<open>maxHistorySize + k\<close> events have been emitted
  the history holds exactly \<open>maxHistorySize\<close> events: the most recent ones, in the order
  of emission. An emission into a full history drops the single oldest entry. (The
  history of an engine never exceeds a non-negative \<open>maxHistorySize\<close>, which is the
  second assumption; the constructor has already emitted one event.)
\<close>

theorem history_bound:
  assumes "saveHistory (config s)"
    and "int (length (eventHistory s)) \<le> maxHistorySize (config s)"
    and "length es = nat (maxHistorySize (config s)) + k"
  shows "eventHistory (logEvents es s) = drop k (fullEvents es (eventCounter s) (currentPhase s))
       \<and> int (length (eventHistory (logEvents es s))) = maxHistorySize (config s)
       \<and> (int (length (eventHistory s)) = maxHistorySize (config s) \<longrightarrow>
            eventHistory (logEvent e s) =
              tl (eventHistory s @ [fullEvent e (eventCounter s + 1) (currentPhase s)]))"
proof -
  have len: "length (fullEvents xs n cur) = length xs" for xs n cur
    by (induction xs arbitrary: n) simp_all
  have "eventHistory (logEvents es s) =
     drop (length (eventHistory s) + length es - nat (maxHistorySize (config s)))
       (eventHistory s @ fullEvents es (eventCounter s) (currentPhase s))"
    using assms(1,2) by (rule eventHistory_logEvents)
  then have 1: "eventHistory (logEvents es s) = drop k (fullEvents es (eventCounter s) (currentPhase s))"
    using assms(3) by simp
  have 2: "int (length (eventHistory (logEvents es s))) = maxHistorySize (config s)"
    using assms(2,3) by (simp add: 1 len)
  have 3: "int (length (eventHistory s)) = maxHistorySize (config s) \<longrightarrow>
            eventHistory (logEvent e s) =
              tl (eventHistory s @ [fullEvent e (eventCounter s + 1) (currentPhase s)])"
    using assms(1) by (simp add: logEvent_eq Let_def)
  from 1 2 3 show ?thesis by blast
qed

theorem history_bound_witness:
  "map ev_id (eventHistory (logEvents [info_event, info_event, info_event] small_history_engine))
     = [3, 4]"
proof -
  have c: "config small_history_engine = default_config\<lparr>maxHistorySize := 2\<rparr>"
    by (simp add: small_history_engine_def new_LifecycleEngine_def)
  have n: "eventCounter small_history_engine = 1"
    by (simp add: small_history_engine_def new_LifecycleEngine_def)
  have h: "length (eventHistory small_history_engine) = 1"
    by (simp add: small_history_engine_def new_LifecycleEngine_def logEvent_eq Let_def
        default_config_def)
  have "eventHistory (logEvents [info_event, info_event, info_event] small_history_engine) =
        drop 1 (fullEvents [info_event, info_event, info_event]
                  (eventCounter small_history_engine) (currentPhase small_history_engine))"
    using history_bound [of small_history_engine "[info_event, info_event, info_event]" 1]
    by (simp add: c h default_config_def)
  then show ?thesis
    by (simp add: n fullEvent_def)
qed

text \<open>
  C7. \<open>initialize\<close> on an engine that is not \<open>UNINITIALIZED\<close>, and \<open>start\<close> on an
  engine that is neither \<open>UNINITIALIZED\<close> (where it initializes first) nor \<open>STOPPED\<close>
  nor \<open>PAUSED\<close>, fail with the error of the state check and leave the engine as it
  was. (The source throws a plain \<open>Error\<close> at both places; \<open>AlreadyInitialized\<close> and
  \<open>InvalidStartState\<close> stand for its two messages.)
\<close>

theorem invalid_state_rejected:
  "(state s \<noteq> UNINITIALIZED \<longrightarrow> initialize s = (Inl AlreadyInitialized, s)) \<and>
   (state s \<noteq> UNINITIALIZED \<and> state s \<noteq> STOPPED \<and> state s \<noteq> PAUSED \<longrightarrow>
      start s = (Inl InvalidStartState, s))"
  by (simp add: initialize_def start_def)

theorem invalid_state_rejected_witness:
  "initialize running_engine = (Inl AlreadyInitialized, running_engine) \<and>
   start running_engine = (Inl InvalidStartState, running_engine)"
  using invalid_state_rejected [of running_engine]
  by (simp add: running_engine_def)

text \<open>
  C4. With a non-negative \<open>maxRetries\<close>, a module whose \<open>execute\<close> never succeeds is
  called exactly \<open>maxRetries + 1\<close> times: after each of the first \<open>maxRetries\<close> failures
  the executor logs a \<open>module_execute_retry\<close> event at level \<open>WARN\<close> and waits
  \<open>retryDelay\<close>, after the last one it logs a \<open>module_execute_failed\<close> event at level
  \<open>ERROR\<close> and throws the error of that last attempt. When the attempt number \<open>k\<close> (from
  0, within the budget) is the first to succeed, the module is called \<open>k + 1\<close> times and
  no more. (The events are read in the context's event list, when there is a context.)
\<close>

theorem retry_bound:
  assumes "0 \<le> maxRetries (config s)"
  shows
    "((\<forall>n. execute m n \<noteq> Resolves) \<longrightarrow>
        (\<exists>err s'. executeModule m s = (Inl err, s') \<and>
           race m (execute m (executions s (mref m) + nat (maxRetries (config s)))) = Inl err \<and>
           executions s' (mref m) = executions s (mref m) + nat (maxRetries (config s)) + 1 \<and>
           engine_calls (trace s') =
             engine_calls (trace s) @
             concat (replicate (nat (maxRetries (config s)))
                       [call_of m s, TimeoutArmed (phaseTimeout (config s)),
                        Delay (retryDelay (config s))]) @
             [call_of m s, TimeoutArmed (phaseTimeout (config s))] \<and>
           kinds (log_of s') =
             kinds (log_of s) @
             (if ctx s = None then []
              else concat (replicate (nat (maxRetries (config s)))
                             [(phase m, ''module_execute_start'', DEBUG),
                              (phase m, ''module_execute_retry'', WARN)]) @
                   [(phase m, ''module_execute_start'', DEBUG),
                    (phase m, ''module_execute_failed'', ERROR)]))) \<and>
     (\<forall>k. (\<forall>i<k. execute m (executions s (mref m) + i) \<noteq> Resolves) \<and>
          execute m (executions s (mref m) + k) = Resolves \<and>
          int k \<le> maxRetries (config s) \<longrightarrow>
        (\<exists>s'. executeModule m s = (Inr (), s') \<and>
           executions s' (mref m) = executions s (mref m) + k + 1 \<and>
           engine_calls (trace s') =
             engine_calls (trace s) @
             concat (replicate k
                       [call_of m s, TimeoutArmed (phaseTimeout (config s)),
                        Delay (retryDelay (config s))]) @
             [call_of m s, TimeoutArmed (phaseTimeout (config s))] \<and>
           kinds (log_of s') =
             kinds (log_of s) @
             (if ctx s = None then []
              else concat (replicate k
                             [(phase m, ''module_execute_start'', DEBUG),
                              (phase m, ''module_execute_retry'', WARN)]) @
                   [(phase m, ''module_execute_start'', DEBUG),
                    (phase m, ''module_execute_complete'', DEBUG)])))"
proof (intro conjI impI allI)
  assume "\<forall>n. execute m n \<noteq> Resolves"
  from executeModule_always_fails [OF this assms]
  show "\<exists>err s'. executeModule m s = (Inl err, s') \<and>
           race m (execute m (executions s (mref m) + nat (maxRetries (config s)))) = Inl err \<and>
           executions s' (mref m) = executions s (mref m) + nat (maxRetries (config s)) + 1 \<and>
           engine_calls (trace s') =
             engine_calls (trace s) @
             concat (replicate (nat (maxRetries (config s)))
                       [call_of m s, TimeoutArmed (phaseTimeout (config s)),
                        Delay (retryDelay (config s))]) @
             [call_of m s, TimeoutArmed (phaseTimeout (config s))] \<and>
           kinds (log_of s') =
             kinds (log_of s) @
             (if ctx s = None then []
              else concat (replicate (nat (maxRetries (config s)))
                             [(phase m, ''module_execute_start'', DEBUG),
                              (phase m, ''module_execute_retry'', WARN)]) @
                   [(phase m, ''module_execute_start'', DEBUG),
                    (phase m, ''module_execute_failed'', ERROR)])"
    unfolding progress_def by fastforce
next
  fix k
  assume a: "(\<forall>i<k. execute m (executions s (mref m) + i) \<noteq> Resolves) \<and>
          execute m (executions s (mref m) + k) = Resolves \<and>
          int k \<le> maxRetries (config s)"
  then have a1: "\<forall>i<k. execute m (executions s (mref m) + i) \<noteq> Resolves"
    and a2: "execute m (executions s (mref m) + k) = Resolves"
    and a3: "int k \<le> maxRetries (config s)" by blast+
  from executeModule_succeeds_after [OF a1 a2 a3]
  show "\<exists>s'. executeModule m s = (Inr (), s') \<and>
           executions s' (mref m) = executions s (mref m) + k + 1 \<and>
           engine_calls (trace s') =
             engine_calls (trace s) @
             concat (replicate k
                       [call_of m s, TimeoutArmed (phaseTimeout (config s)),
                        Delay (retryDelay (config s))]) @
             [call_of m s, TimeoutArmed (phaseTimeout (config s))] \<and>
           kinds (log_of s') =
             kinds (log_of s) @
             (if ctx s = None then []
              else concat (replicate k
                             [(phase m, ''module_execute_start'', DEBUG),
                              (phase m, ''module_execute_retry'', WARN)]) @
                   [(phase m, ''module_execute_start'', DEBUG),
                    (phase m, ''module_execute_complete'', DEBUG)])"
    unfolding progress_def by fastforce
qed

theorem retry_bound_witness:
  "(\<exists>err s'. executeModule failing_module (new_LifecycleEngine default_config) = (Inl err, s') \<and>
      executions s' 1 = 4 \<and>
      exec_calls (trace s') = [1, 1, 1, 1]) \<and>
   (\<exists>s'. executeModule flaky_module (new_LifecycleEngine default_config) = (Inr (), s') \<and>
      executions s' 2 = 3 \<and>
      exec_calls (trace s') = [2, 2, 2])"
proof -
  let ?s = "new_LifecycleEngine default_config"
  have m: "0 \<le> maxRetries (config ?s)" by (simp add: default_config_def)
  have N: "nat (maxRetries (config ?s)) = 3" by (simp add: default_config_def)
  have f: "\<forall>n. execute failing_module n \<noteq> Resolves" by (simp add: failing_module_def)
  from retry_bound [OF m, of failing_module] f obtain err s' where
    1: "executeModule failing_module ?s = (Inl err, s')"
    and 2: "executions s' (mref failing_module) = executions ?s (mref failing_module) + nat (maxRetries (config ?s)) + 1"
    and 3: "engine_calls (trace s') =
             engine_calls (trace ?s) @
             concat (replicate (nat (maxRetries (config ?s)))
                       [call_of failing_module ?s, TimeoutArmed (phaseTimeout (config ?s)),
                        Delay (retryDelay (config ?s))]) @
             [call_of failing_module ?s, TimeoutArmed (phaseTimeout (config ?s))]"
    by blast
  have "exec_calls (trace s') = exec_calls (engine_calls (trace s'))" by simp
  also have "\<dots> = [1, 1, 1, 1]"
    by (simp only: 3 N) (simp add: numeral_3_eq_3 failing_module_def)
  finally have 4: "exec_calls (trace s') = [1, 1, 1, 1]" .
  have A: "\<exists>err s'. executeModule failing_module ?s = (Inl err, s') \<and>
      executions s' 1 = 4 \<and> exec_calls (trace s') = [1, 1, 1, 1]"
    using 1 2 4 N by (simp add: failing_module_def)
  have g: "(\<forall>i<2. execute flaky_module (executions ?s (mref flaky_module) + i) \<noteq> Resolves) \<and>
          execute flaky_module (executions ?s (mref flaky_module) + 2) = Resolves \<and>
          int 2 \<le> maxRetries (config ?s)"
    by (simp add: flaky_module_def default_config_def)
  from retry_bound [OF m, of flaky_module] g obtain t' where
    5: "executeModule flaky_module ?s = (Inr (), t')"
    and 6: "executions t' (mref flaky_module) = executions ?s (mref flaky_module) + 2 + 1"
    and 7: "engine_calls (trace t') =
             engine_calls (trace ?s) @
             concat (replicate 2
                       [call_of flaky_module ?s, TimeoutArmed (phaseTimeout (config ?s)),
                        Delay (retryDelay (config ?s))]) @
             [call_of flaky_module ?s, TimeoutArmed (phaseTimeout (config ?s))]"
    by blast
  have "exec_calls (trace t') = exec_calls (engine_calls (trace t'))" by simp
  also have "\<dots> = [2, 2, 2]"
    by (simp only: 7) (simp add: numeral_2_eq_2 flaky_module_def)
  finally have 8: "exec_calls (trace t') = [2, 2, 2]" .
  have B: "\<exists>s'. executeModule flaky_module ?s = (Inr (), s') \<and>
      executions s' 2 = 3 \<and> exec_calls (trace s') = [2, 2, 2]"
    using 5 6 8 by (simp add: flaky_module_def)
  from A B show ?thesis by blast
qed

text \<open>
  C3. As the claim states it, with the next module of the same phase running after the
  failure, the claim fails: in \<open>continue_engine\<close> the module \<open>ok_module\<close> is registered
  to the phase of the failing module, after it, and is never executed.
\<close>

theorem continue_to_next_module_counterexample:
  "continueOnError (config continue_engine) \<and>
   phase_modules PREPARATION continue_engine = [failing_module, ok_module] \<and>
   fst (executePhase PREPARATION continue_engine) = Inr () \<and>
   exec_calls (trace (snd (executePhase PREPARATION continue_engine))) = [mref failing_module,
     mref failing_module] \<and>
   mref ok_module \<notin> set (exec_calls (trace (snd (executePhase PREPARATION continue_engine))))"
proof -
  let ?s = continue_engine
  let ?t = "phase_entry PREPARATION ?s"
  have a1: "continueOnError (config ?s)" by (simp add: continue_engine_parts)
  have a2: "phase_modules PREPARATION ?s = [] @ failing_module # [ok_module]"
    by (simp add: continue_engine_parts)
  have a3: "executePhaseModules_loop [] ?t = (Inr (), ?t)" by simp
  have a4: "\<forall>n. execute failing_module n \<noteq> Resolves" by (simp add: failing_module_def)
  have a5: "0 \<le> maxRetries (config ?s)" by (simp add: continue_engine_parts)
  have t: "exec_calls (trace ?s) = []"
    using exec_calls_cong [of "trace ?s" "[]"] by (simp add: continue_engine_parts)
  from executePhase_continue [OF a1 a2 a3 a4 a5] obtain err s' where
    e: "executePhase PREPARATION ?s = (Inr (), s')"
    and x: "exec_calls (trace s') =
        exec_calls (trace ?t) @ replicate (nat (maxRetries (config ?s)) + 1) (mref failing_module)"
    by blast
  have "exec_calls (trace s') = [mref failing_module, mref failing_module]"
    using x by (simp add: t continue_engine_parts)
  with e a1 show ?thesis
    by (simp add: continue_engine_parts failing_module_def ok_module_def)
qed

text \<open>
  C3, amended. Let \<open>continueOnError\<close> be true and let a module registered to a phase fail
  on every attempt, the modules registered to the phase before it having succeeded.

  In a phase run by \<open>executePhase\<close>, which \<open>start\<close> applies to the five phases from
  Preparation to Cleanup, the phase ends without an error for \<open>start\<close>, which goes on with
  the next phase; the error of the last attempt is appended to the context's error list,
  a \<open>phase_error\<close> event of level \<open>ERROR\<close> follows the module's events, the observers'
  \<open>onError\<close> methods are called, the phase counts as a failure, and no module registered
  to the phase after the failing one is executed.

  The Initialization phase is run by \<open>initialize\<close> (called by \<open>start\<close> on an engine that is
  \<open>UNINITIALIZED\<close>), where \<open>continueOnError\<close> has no effect: the error is recorded and
  announced in the same way and the modules after the failing one are skipped, but
  \<open>initialize\<close> and \<open>start\<close> throw the error of the last attempt, the state is \<open>ERROR\<close>, no
  statistics are updated and no further phase is run.
\<close>

theorem continue_on_error_skips_rest_of_phase:
  assumes "continueOnError (config s)"
    and "phase_modules p s = ms1 @ m # ms2"
    and "\<forall>n. execute m n \<noteq> Resolves"
    and "0 \<le> maxRetries (config s)"
  shows
    "(\<forall>t1. executePhaseModules_loop ms1 (phase_entry p s) = (Inr (), t1) \<longrightarrow>
        (\<exists>err s'. executePhase p s = (Inr (), s') \<and>
           race m (execute m (executions t1 (mref m) + nat (maxRetries (config s)))) = Inl err \<and>
           errors_of s' = errors_of s @ [err] \<and>
           kinds (log_of s') =
             kinds (log_of t1) @
             concat (replicate (nat (maxRetries (config s)))
                       [(phase m, ''module_execute_start'', DEBUG),
                        (phase m, ''module_execute_retry'', WARN)]) @
             [(phase m, ''module_execute_start'', DEBUG),
              (phase m, ''module_execute_failed'', ERROR),
              (p, ''phase_error'', ERROR)] \<and>
           engine_calls (trace s') =
             engine_calls (trace t1) @
             concat (replicate (nat (maxRetries (config s)))
                       [call_of m (phase_entry p s), TimeoutArmed (phaseTimeout (config s)),
                        Delay (retryDelay (config s))]) @
             [call_of m (phase_entry p s), TimeoutArmed (phaseTimeout (config s))] @
             observer_error_calls (observers s) err p \<and>
           exec_calls (trace s') =
             exec_calls (trace t1) @ replicate (nat (maxRetries (config s)) + 1) (mref m) \<and>
           failureCount (phaseStats (stats s') p) = failureCount (phaseStats (stats s) p) + 1 \<and>
           (\<forall>ps. start_phases (p # ps) s = start_phases ps s'))) \<and>
     (\<forall>u t1. p = INITIALIZATION \<and> state s = UNINITIALIZED \<and>
          notifyObservers ''onInitializationStart'' (init_entry s) = (Inr (), u) \<and>
          executePhaseModules_loop ms1 u = (Inr (), t1) \<longrightarrow>
        (\<exists>err s'. initialize s = (Inl err, s') \<and> start s = (Inl err, s') \<and>
           race m (execute m (executions t1 (mref m) + nat (maxRetries (config s)))) = Inl err \<and>
           state s' = STATE_ERROR \<and>
           stats s' = stats s \<and>
           errors_of s' = [err] \<and>
           kinds (log_of s') =
             kinds (log_of t1) @
             concat (replicate (nat (maxRetries (config s)))
                       [(phase m, ''module_execute_start'', DEBUG),
                        (phase m, ''module_execute_retry'', WARN)]) @
             [(phase m, ''module_execute_start'', DEBUG),
              (phase m, ''module_execute_failed'', ERROR),
              (INITIALIZATION, ''phase_error'', ERROR)] \<and>
           engine_calls (trace s') =
             engine_calls (trace t1) @
             concat (replicate (nat (maxRetries (config s)))
                       [call_of m (init_entry s), TimeoutArmed (phaseTimeout (config s)),
                        Delay (retryDelay (config s))]) @
             [call_of m (init_entry s), TimeoutArmed (phaseTimeout (config s))] @
             observer_error_calls (observers s) err INITIALIZATION \<and>
           exec_calls (trace s') =
             exec_calls (trace t1) @ replicate (nat (maxRetries (config s)) + 1) (mref m)))"
proof (intro conjI allI impI)
  fix t1
  assume "executePhaseModules_loop ms1 (phase_entry p s) = (Inr (), t1)"
  with assms(1,2) show "\<exists>err s'. executePhase p s = (Inr (), s') \<and>
           race m (execute m (executions t1 (mref m) + nat (maxRetries (config s)))) = Inl err \<and>
           errors_of s' = errors_of s @ [err] \<and>
           kinds (log_of s') =
             kinds (log_of t1) @
             concat (replicate (nat (maxRetries (config s)))
                       [(phase m, ''module_execute_start'', DEBUG),
                        (phase m, ''module_execute_retry'', WARN)]) @
             [(phase m, ''module_execute_start'', DEBUG),
              (phase m, ''module_execute_failed'', ERROR),
              (p, ''phase_error'', ERROR)] \<and>
           engine_calls (trace s') =
             engine_calls (trace t1) @
             concat (replicate (nat (maxRetries (config s)))
                       [call_of m (phase_entry p s), TimeoutArmed (phaseTimeout (config s)),
                        Delay (retryDelay (config s))]) @
             [call_of m (phase_entry p s), TimeoutArmed (phaseTimeout (config s))] @
             observer_error_calls (observers s) err p \<and>
           exec_calls (trace s') =
             exec_calls (trace t1) @ replicate (nat (maxRetries (config s)) + 1) (mref m) \<and>
           failureCount (phaseStats (stats s') p) = failureCount (phaseStats (stats s) p) + 1 \<and>
           (\<forall>ps. start_phases (p # ps) s = start_phases ps s')"
    using assms(3,4) by (rule executePhase_continue)
next
  fix u t1
  assume a: "p = INITIALIZATION \<and> state s = UNINITIALIZED \<and>
          notifyObservers ''onInitializationStart'' (init_entry s) = (Inr (), u) \<and>
          executePhaseModules_loop ms1 u = (Inr (), t1)"
  then have a1: "state s = UNINITIALIZED"
    and a2: "phase_modules INITIALIZATION s = ms1 @ m # ms2"
    and a3: "notifyObservers ''onInitializationStart'' (init_entry s) = (Inr (), u)"
    and a4: "executePhaseModules_loop ms1 u = (Inr (), t1)"
    using assms(2) by simp_all
  from a1 a2 a3 a4 assms(3,4)
  show "\<exists>err s'. initialize s = (Inl err, s') \<and> start s = (Inl err, s') \<and>
           race m (execute m (executions t1 (mref m) + nat (maxRetries (config s)))) = Inl err \<and>
           state s' = STATE_ERROR \<and>
           stats s' = stats s \<and>
           errors_of s' = [err] \<and>
           kinds (log_of s') =
             kinds (log_of t1) @
             concat (replicate (nat (maxRetries (config s)))
                       [(phase m, ''module_execute_start'', DEBUG),
                        (phase m, ''module_execute_retry'', WARN)]) @
             [(phase m, ''module_execute_start'', DEBUG),
              (phase m, ''module_execute_failed'', ERROR),
              (INITIALIZATION, ''phase_error'', ERROR)] \<and>
           engine_calls (trace s') =
             engine_calls (trace t1) @
             concat (replicate (nat (maxRetries (config s)))
                       [call_of m (init_entry s), TimeoutArmed (phaseTimeout (config s)),
                        Delay (retryDelay (config s))]) @
             [call_of m (init_entry s), TimeoutArmed (phaseTimeout (config s))] @
             observer_error_calls (observers s) err INITIALIZATION \<and>
           exec_calls (trace s') =
             exec_calls (trace t1) @ replicate (nat (maxRetries (config s)) + 1) (mref m)"
    by (rule initialize_failure)
qed

theorem continue_on_error_skips_rest_of_phase_witness:
  "(\<exists>err s'. executePhase PREPARATION continue_engine = (Inr (), s') \<and>
      errors_of s' = [err] \<and>
      failureCount (phaseStats (stats s') PREPARATION) =
        failureCount (phaseStats (stats continue_engine) PREPARATION) + 1 \<and>
      start_phases [PREPARATION, VALIDATION] continue_engine = start_phases [VALIDATION] s') \<and>
   (\<exists>err s'. continueOnError (config init_failing_engine) \<and>
      start init_failing_engine = (Inl err, s') \<and>
      state s' = STATE_ERROR \<and>
      errors_of s' = [err] \<and>
      stats s' = stats init_failing_engine \<and>
      phase_modules PREPARATION init_failing_engine = [ok_module] \<and>
      exec_calls (trace s') = [mref failing_module, mref failing_module])"
proof -
  let ?s = continue_engine
  let ?t = "phase_entry PREPARATION ?s"
  have a1: "continueOnError (config ?s)" by (simp add: continue_engine_parts)
  have a2: "phase_modules PREPARATION ?s = [] @ failing_module # [ok_module]"
    by (simp add: continue_engine_parts)
  have a3: "executePhaseModules_loop [] ?t = (Inr (), ?t)" by simp
  have a4: "\<forall>n. execute failing_module n \<noteq> Resolves" by (simp add: failing_module_def)
  have a5: "0 \<le> maxRetries (config ?s)" by (simp add: continue_engine_parts)
  from continue_on_error_skips_rest_of_phase [OF a1 a2 a4 a5] a3 obtain err s' where
    "executePhase PREPARATION ?s = (Inr (), s')"
    "errors_of s' = errors_of ?s @ [err]"
    "failureCount (phaseStats (stats s') PREPARATION) =
        failureCount (phaseStats (stats ?s) PREPARATION) + 1"
    "\<forall>ps. start_phases (PREPARATION # ps) ?s = start_phases ps s'"
    by blast
  then have A: "\<exists>err s'. executePhase PREPARATION ?s = (Inr (), s') \<and>
      errors_of s' = [err] \<and>
      failureCount (phaseStats (stats s') PREPARATION) =
        failureCount (phaseStats (stats ?s) PREPARATION) + 1 \<and>
      start_phases [PREPARATION, VALIDATION] ?s = start_phases [VALIDATION] s'"
    by (auto simp: errors_of_def continue_engine_parts)
  let ?e = init_failing_engine
  let ?u = "init_entry ?e"
  have b1: "continueOnError (config ?e)" by (simp add: init_failing_engine_parts)
  have b2: "phase_modules INITIALIZATION ?e = [] @ failing_module # []"
    by (simp add: init_failing_engine_parts)
  have b5: "0 \<le> maxRetries (config ?e)" by (simp add: init_failing_engine_parts)
  have b6: "INITIALIZATION = INITIALIZATION \<and> state ?e = UNINITIALIZED \<and>
          notifyObservers ''onInitializationStart'' ?u = (Inr (), ?u) \<and>
          executePhaseModules_loop [] ?u = (Inr (), ?u)"
    by (simp add: init_failing_engine_parts notifyObservers_no_observers)
  have t: "exec_calls (trace ?u) = []"
    using exec_calls_cong [of "trace ?u" "[]"] by (simp add: init_failing_engine_parts)
  from continue_on_error_skips_rest_of_phase [OF b1 b2 a4 b5] b6 obtain err2 s2 where
    "start ?e = (Inl err2, s2)" "state s2 = STATE_ERROR" "stats s2 = stats ?e"
    "errors_of s2 = [err2]"
    "exec_calls (trace s2) =
       exec_calls (trace ?u) @ replicate (nat (maxRetries (config ?e)) + 1) (mref failing_module)"
    by blast
  then have B: "\<exists>err s'. continueOnError (config ?e) \<and>
      start ?e = (Inl err, s') \<and>
      state s' = STATE_ERROR \<and>
      errors_of s' = [err] \<and>
      stats s' = stats ?e \<and>
      phase_modules PREPARATION ?e = [ok_module] \<and>
      exec_calls (trace s') = [mref failing_module, mref failing_module]"
    using b1 by (simp add: t init_failing_engine_parts)
  from A B show ?thesis by blast
qed

text \<open>
  C5. Let \<open>start\<close> pass its state check with the engine \<open>s0\<close> (after the implicit
  \<open>initialize\<close>, or at once), with \<open>continueOnError\<close> false, and let the Preparation
  phase succeed. When a module registered to the Validation phase fails on every attempt
  (the modules registered before it having succeeded), \<open>start\<close> throws the error of its
  last attempt; the state is \<open>ERROR\<close>, the counters of all and of failed executions are
  one higher, the last event is a \<open>lifecycle_error\<close> of level \<open>CRITICAL\<close>, the last module
  call is the last attempt of the failing module, and the Execution, Monitoring and
  Cleanup phases are not executed.
\<close>

theorem validation_failure_aborts_run:
  assumes "\<not> continueOnError (config s0)"
    and "if state s = UNINITIALIZED then initialize s = (Inr (), s0)
         else s0 = s \<and> (state s = STOPPED \<or> state s = PAUSED)"
    and "executePhase PREPARATION (start_entry s0) = (Inr (), s1)"
    and "phase_modules VALIDATION s0 = ms1 @ m # ms2"
    and "executePhaseModules_loop ms1 (phase_entry VALIDATION s1) = (Inr (), t1)"
    and "\<forall>n. execute m n \<noteq> Resolves"
    and "0 \<le> maxRetries (config s0)"
  shows "\<exists>err s'. start s = (Inl err, s') \<and>
      race m (execute m (executions t1 (mref m) + nat (maxRetries (config s0)))) = Inl err \<and>
      state s' = STATE_ERROR \<and>
      failedExecutions (stats s') = failedExecutions (stats s0) + 1 \<and>
      totalExecutions (stats s') = totalExecutions (stats s0) + 1 \<and>
      last (kinds (log_of s')) = (VALIDATION, ''lifecycle_error'', CRITICAL) \<and>
      exec_calls (trace s') =
        exec_calls (trace t1) @ replicate (nat (maxRetries (config s0)) + 1) (mref m) \<and>
      executionCount (phaseStats (stats s') EXECUTION) =
        executionCount (phaseStats (stats s0) EXECUTION) \<and>
      executionCount (phaseStats (stats s') MONITORING) =
        executionCount (phaseStats (stats s0) MONITORING) \<and>
      executionCount (phaseStats (stats s') CLEANUP) =
        executionCount (phaseStats (stats s0) CLEANUP)"
  using assms by (rule start_aborts)

theorem validation_failure_aborts_run_witness:
  "\<exists>err s'. start abort_engine = (Inl err, s') \<and>
      state s' = STATE_ERROR \<and>
      failedExecutions (stats s') = 1 \<and>
      phase_modules EXECUTION abort_engine = [ok_module] \<and>
      exec_calls (trace s') = [mref failing_module] \<and>
      executionCount (phaseStats (stats s') EXECUTION) = 0"
proof -
  let ?s = abort_engine
  let ?s1 = "snd (executePhase PREPARATION (start_entry ?s))"
  let ?t1 = "phase_entry VALIDATION ?s1"
  have a1: "\<not> continueOnError (config ?s)"
    by (simp add: abort_engine_parts default_config_def)
  have a2: "if state ?s = UNINITIALIZED then initialize ?s = (Inr (), ?s)
         else ?s = ?s \<and> (state ?s = STOPPED \<or> state ?s = PAUSED)"
    by (simp add: abort_engine_parts)
  have "fst (executePhase PREPARATION (start_entry ?s)) = Inr ()"
    by (rule executePhase_no_modules) (simp add: abort_engine_parts)
  then have a3: "executePhase PREPARATION (start_entry ?s) = (Inr (), ?s1)"
    by (metis prod.collapse)
  have a4: "phase_modules VALIDATION ?s = [] @ failing_module # []"
    by (simp add: abort_engine_parts)
  have a5: "executePhaseModules_loop [] ?t1 = (Inr (), ?t1)" by simp
  have a6: "\<forall>n. execute failing_module n \<noteq> Resolves" by (simp add: failing_module_def)
  have a7: "0 \<le> maxRetries (config ?s)" by (simp add: abort_engine_parts)
  have t: "exec_calls (trace ?s1) = []"
    by (simp add: executePhase_no_modules_calls abort_engine_parts)
  from validation_failure_aborts_run [OF a1 a2 a3 a4 a5 a6 a7] obtain err s' where
    "start ?s = (Inl err, s')" "state s' = STATE_ERROR"
    "failedExecutions (stats s') = failedExecutions (stats ?s) + 1"
    "exec_calls (trace s') =
        exec_calls (trace ?t1) @ replicate (nat (maxRetries (config ?s)) + 1) (mref failing_module)"
    "executionCount (phaseStats (stats s') EXECUTION) =
        executionCount (phaseStats (stats ?s) EXECUTION)"
    by blast
  then show ?thesis
    by (simp add: t abort_engine_parts initializePhaseStats_def)
qed

text \<open>
  C2. The observers' phase hooks are not called by \<open>executePhase\<close>: the engine
  \<open>observed_engine\<close> has an observer with both hooks of every phase that \<open>start\<close> runs,
  the run goes through (the Preparation phase is counted once), and no observer method
  has been called.
\<close>

theorem phase_hooks_never_called:
  "state observed_engine = STOPPED \<and>
   observers observed_engine = [phase_observer] \<and>
   methods phase_observer ''onPreparationStart'' = Some Returns \<and>
   methods phase_observer ''onPreparationComplete'' = Some Returns \<and>
   fst (executePhase PREPARATION observed_engine) = Inr () \<and>
   executionCount (phaseStats (stats (snd (executePhase PREPARATION observed_engine)))
     PREPARATION) = 1 \<and>
   filter is_ObserverCall (trace (snd (executePhase PREPARATION observed_engine))) = [] \<and>
   fst (start observed_engine) = Inr () \<and>
   filter is_ObserverCall (trace (snd (start observed_engine))) = []"
proof -
  let ?s = observed_engine
  let ?ps = "[PREPARATION, VALIDATION, EXECUTION, MONITORING, CLEANUP]"
  have t0: "filter is_ObserverCall (trace ?s) = []"
    by (rule filter_engine_calls_empty)
      (auto simp: observed_engine_parts is_ObserverCall_def is_log_action_def
        split: action.splits)
  have 1: "fst (executePhase PREPARATION ?s) = Inr ()"
    by (rule executePhase_no_modules) (simp add: observed_engine_parts)
  have 2: "executionCount (phaseStats (stats (snd (executePhase PREPARATION ?s)))
     PREPARATION) = 1"
    by (simp add: executePhase_parts(12) observed_engine_parts initializePhaseStats_def)
  have 3: "filter is_ObserverCall (trace (snd (executePhase PREPARATION ?s))) = []"
    by (simp add: no_phase_hooks t0)
  have r: "if state ?s = UNINITIALIZED then initialize ?s = (Inr (), ?s)
           else ?s = ?s \<and> (state ?s = STOPPED \<or> state ?s = PAUSED)"
    by (simp add: observed_engine_parts)
  have "fst (start_phases ?ps (start_entry ?s)) = Inr ()"
    by (rule start_phases_no_modules) (simp add: observed_engine_parts)
  then have sp: "start_phases ?ps (start_entry ?s) = (Inr (), snd (start_phases ?ps (start_entry ?s)))"
    by (metis prod.collapse)
  have 4: "fst (start ?s) = Inr ()"
    by (subst start_eq [OF r], subst sp) simp
  have 5: "filter is_ObserverCall (trace (snd (start ?s))) = []"
    by (simp add: no_phase_hooks_start observed_engine_parts t0)
  show ?thesis
    using 1 2 3 4 5 by (simp add: observed_engine_parts) (simp add: phase_observer_def)
qed


text \<open>
  C8. \<open>logEvent\<close> does not wait for its listeners: \<open>listening_engine\<close> has a listener
  that returns a promise; an emission calls it, \<open>notifyListeners\<close> collects the promise,
  and \<open>logEvent\<close> returns with the console line as its last action and no \<open>await\<close>.
\<close>

theorem listener_promises_not_awaited:
  "listeners listening_engine = [async_listener] \<and>
   fst (notifyListeners (fullEvent info_event 3 None) listening_engine) =
     Pending [(lid async_listener, None)] \<and>
   trace (logEvent info_event listening_engine) =
     trace listening_engine @
     [ListenerCall (lid async_listener) (fullEvent info_event 3 None),
      ConsoleLog (fullEvent info_event 3 None)] \<and>
   filter is_AwaitAll (trace (logEvent info_event listening_engine)) = []"
proof -
  let ?s = listening_engine
  have l: "listeners ?s = [async_listener]"
    by (simp add: listening_engine_def addEventListener_def)
  have n: "eventCounter ?s = 2" "currentPhase ?s = None" "config ?s = default_config"
    by (simp_all add: listening_engine_def addEventListener_def)
  have 1: "fst (notifyListeners (fullEvent info_event 3 None) ?s) =
     Pending [(lid async_listener, None)]"
    by (simp add: notifyListeners_def l async_listener_def)
  have 2: "trace (logEvent info_event ?s) =
     trace ?s @
     [ListenerCall (lid async_listener) (fullEvent info_event 3 None),
      ConsoleLog (fullEvent info_event 3 None)]"
    by (simp add: logEvent_eq Let_def l n async_listener_def default_config_def)
      (simp add: fullEvent_def info_event_def)
  have e: "engine_calls (trace (logEvent info_event ?s)) = []"
    by (simp add: listening_engine_def addEventListener_def)
  have 3: "filter is_AwaitAll (trace (logEvent info_event ?s)) = []"
    using e by (rule filter_engine_calls_empty)
      (auto simp: is_AwaitAll_def is_log_action_def split: action.splits)
  from l 1 2 3 show ?thesis by simp
qed




text \<open>
  C9. When the context is first created by \<open>executePhase\<close> itself, \<open>previousPhase\<close> is
  not the phase that was current before: \<open>ready_engine\<close> is \<open>fresh_engine\<close> stopped
  before any initialization, so it has no context and no current phase; \<open>start\<close>
  succeeds, and the module of the Preparation phase, the first phase ever entered, is
  given a context whose \<open>previousPhase\<close> is the Preparation phase itself. (In
  \<open>fresh_engine\<close>, which \<open>start\<close> initializes first, the same module is given
  \<open>INITIALIZATION\<close>.)
\<close>

theorem previousPhase_of_lazy_context:
  "ctx ready_engine = None \<and>
   currentPhase ready_engine = None \<and>
   fst (start ready_engine) = Inr () \<and>
   engine_calls (trace (snd (start ready_engine))) =
     [ExecuteCall (mref ok_module) PREPARATION (Some PREPARATION), TimeoutArmed 30000] \<and>
   engine_calls (trace (snd (start fresh_engine))) =
     [ExecuteCall (mref ok_module) PREPARATION (Some INITIALIZATION), TimeoutArmed 30000]"
  using start_ready_engine start_fresh_engine(2)
  by (simp add: ready_engine_def fresh_engine_parts)



end
